theory Spec2Isabelle
  imports Main "HOL-Library.Word"
begin

unbundle bit_operations_syntax

section \<open>Object.h: flags, entities, the heap\<close>

text \<open>
  \<^verbatim>\<open>enum class ObjectFlags : uint32_t\<close>: a 32-bit mask; the enumerators are the
  bit positions 0 to 14 of Object.h.
\<close>

type_synonym ObjectFlags = "32 word"

definition ObjectFlags_None :: ObjectFlags where "ObjectFlags_None = 0"
definition Public :: ObjectFlags where "Public = push_bit 0 1"
definition Standalone :: ObjectFlags where "Standalone = push_bit 1 1"
definition MarkAsNative :: ObjectFlags where "MarkAsNative = push_bit 2 1"
definition Transient :: ObjectFlags where "Transient = push_bit 3 1"
definition MarkAsRootSet :: ObjectFlags where "MarkAsRootSet = push_bit 4 1"
definition NeedInitialization :: ObjectFlags where "NeedInitialization = push_bit 5 1"
definition BeginDestroyed :: ObjectFlags where "BeginDestroyed = push_bit 6 1"
definition FinishDestroyed :: ObjectFlags where "FinishDestroyed = push_bit 7 1"
definition BeingRegenerated :: ObjectFlags where "BeingRegenerated = push_bit 8 1"
definition DefaultSubObject :: ObjectFlags where "DefaultSubObject = push_bit 9 1"
definition WasLoaded :: ObjectFlags where "WasLoaded = push_bit 10 1"
definition TextExportTransient :: ObjectFlags where "TextExportTransient = push_bit 11 1"
definition LoadCompleted :: ObjectFlags where "LoadCompleted = push_bit 12 1"
definition InitializedProps :: ObjectFlags where "InitializedProps = push_bit 13 1"
definition ConstructedObject :: ObjectFlags where "ConstructedObject = push_bit 14 1"

text \<open>
  Pointers. An \<^verbatim>\<open>Object*\<close> is \<open>addr option\<close> and a \<^verbatim>\<open>Class*\<close> is \<open>cls option\<close>;
  \<open>None\<close> is \<^verbatim>\<open>nullptr\<close>. \<^verbatim>\<open>this\<close> is an \<open>addr\<close>.
\<close>

type_synonym addr = nat
type_synonym cls = nat

text \<open>
  \<^verbatim>\<open>class ObjectBase\<close>, with the member initialisers of Object.h. \<^verbatim>\<open>class Object\<close> adds
  no field. \<open>RefCount\<close> is \<^verbatim>\<open>std::atomic<int32_t>\<close>: \<^verbatim>\<open>fetch_add\<close> and \<^verbatim>\<open>fetch_sub\<close>
  wrap around in two's complement, which is the arithmetic of \<open>32 word\<close>; \<open>sint\<close> reads
  the signed value.
\<close>

record ObjectBase =
  Name :: string
  ClassPrivate :: "cls option"
  OuterPrivate :: "addr option"
  ObjectFlagsPrivate :: ObjectFlags
  RefCount :: "32 word"

definition GetName :: "ObjectBase \<Rightarrow> string" where
  "GetName obj = Name obj"

definition SetName :: "ObjectBase \<Rightarrow> string \<Rightarrow> ObjectBase" where
  "SetName obj name = obj\<lparr>Name := name\<rparr>"

definition GetClass :: "ObjectBase \<Rightarrow> cls option" where
  "GetClass obj = ClassPrivate obj"

definition GetOuter :: "ObjectBase \<Rightarrow> addr option" where
  "GetOuter obj = OuterPrivate obj"

definition GetFlags :: "ObjectBase \<Rightarrow> ObjectFlags" where
  "GetFlags obj = ObjectFlagsPrivate obj"

definition AddFlags :: "ObjectBase \<Rightarrow> ObjectFlags \<Rightarrow> ObjectBase" where
  "AddFlags obj flags = obj\<lparr>ObjectFlagsPrivate := ObjectFlagsPrivate obj OR flags\<rparr>"

definition RemoveFlags :: "ObjectBase \<Rightarrow> ObjectFlags \<Rightarrow> ObjectBase" where
  "RemoveFlags obj flags = obj\<lparr>ObjectFlagsPrivate := ObjectFlagsPrivate obj AND NOT flags\<rparr>"

definition HasFlags :: "ObjectBase \<Rightarrow> ObjectFlags \<Rightarrow> bool" where
  "HasFlags obj flags = (ObjectFlagsPrivate obj AND flags \<noteq> ObjectFlags_None)"

definition IsPendingKill :: "ObjectBase \<Rightarrow> bool" where
  "IsPendingKill obj = HasFlags obj BeginDestroyed"

definition GetRefCount :: "ObjectBase \<Rightarrow> 32 word" where
  "GetRefCount obj = RefCount obj"

text \<open>
  \<^verbatim>\<open>ObjectBase::ObjectBase()\<close>: the member initialisers, then \<^verbatim>\<open>RefCount.store(1)\<close>.
  \<^verbatim>\<open>Object::Object()\<close> runs it and adds \<open>NeedInitialization\<close>.
\<close>

definition ObjectBase_ctor :: ObjectBase where
  "ObjectBase_ctor =
     \<lparr>Name = [], ClassPrivate = None, OuterPrivate = None,
      ObjectFlagsPrivate = ObjectFlags_None, RefCount = 0\<rparr> \<lparr>RefCount := 1\<rparr>"

definition Object_ctor :: ObjectBase where
  "Object_ctor = AddFlags ObjectBase_ctor NeedInitialization"

text \<open>
  The calls a test double would count, in the order they happen. \<open>calls\<close> is a log
  beside the program state: no function of the model reads it.
\<close>

datatype event =
    Call_AddRef addr
  | Call_Release addr
  | Call_delete addr
  | Call_BeginDestroy addr
  | Call_FinishDestroy addr
  | Call_PostInitProperties addr
  | Call_RegisterObject addr
  | Call_UnregisterObject addr

text \<open>
  The state of the process: the live entities by address, the two maps of the
  \<^verbatim>\<open>ObjectRegistry\<close> singleton, the \<^verbatim>\<open>ObjectPtr\<close> variables by their own address (each
  holds its \<^verbatim>\<open>Ptr\<close>), and the call log. A function that dereferences a pointer to no
  live entity has undefined behaviour in C++; the model returns \<open>None\<close> there, and
  \<open>Some\<close> of the new state everywhere else.
\<close>

record world =
  heap :: "addr \<rightharpoonup> ObjectBase"
  Objects :: "string \<rightharpoonup> addr"
  ObjectsByClass :: "cls \<rightharpoonup> addr list"
  handles :: "nat \<rightharpoonup> addr option"
  calls :: "event list"

definition logged :: "event \<Rightarrow> world \<Rightarrow> world" where
  "logged e w = w\<lparr>calls := calls w @ [e]\<rparr>"

text \<open>The state of a process that has created nothing yet.\<close>

definition world0 :: world where
  "world0 = \<lparr>heap = Map.empty, Objects = Map.empty, ObjectsByClass = Map.empty,
             handles = Map.empty, calls = []\<rparr>"

subsection \<open>Reference counting (Object.cpp)\<close>

text \<open>\<^verbatim>\<open>void ObjectBase::AddRef() { RefCount.fetch_add(1); }\<close>\<close>

definition AddRef :: "world \<Rightarrow> addr \<Rightarrow> world option" where
  "AddRef w this =
     (case heap w this of
        None \<Rightarrow> None
      | Some obj \<Rightarrow>
          Some (logged (Call_AddRef this) w
                  \<lparr>heap := (heap w)(this \<mapsto> obj\<lparr>RefCount := RefCount obj + 1\<rparr>)\<rparr>))"

text \<open>\<^verbatim>\<open>delete this\<close>: the destructors of Object.cpp have empty bodies; the storage goes.\<close>

definition delete_this :: "world \<Rightarrow> addr \<Rightarrow> world" where
  "delete_this w this = logged (Call_delete this) w \<lparr>heap := (heap w)(this := None)\<rparr>"

text \<open>
  \<^verbatim>\<open>void ObjectBase::Release() { if (RefCount.fetch_sub(1) == 1) delete this; }\<close>:
  \<^verbatim>\<open>fetch_sub\<close> returns the value before the decrement.
\<close>

definition Release :: "world \<Rightarrow> addr \<Rightarrow> world option" where
  "Release w this =
     (case heap w this of
        None \<Rightarrow> None
      | Some obj \<Rightarrow>
          (let w1 = logged (Call_Release this) w
                      \<lparr>heap := (heap w)(this \<mapsto> obj\<lparr>RefCount := RefCount obj - 1\<rparr>)\<rparr>
           in if RefCount obj = 1 then Some (delete_this w1 this) else Some w1))"

text \<open>A sequence of \<^verbatim>\<open>AddRef()\<close> and \<^verbatim>\<open>Release()\<close> calls on one entity, in any order.\<close>

datatype rc_call = DoAddRef | DoRelease

fun run_calls :: "world \<Rightarrow> addr \<Rightarrow> rc_call list \<Rightarrow> world option" where
  "run_calls w this [] = Some w"
| "run_calls w this (DoAddRef # cs) =
     (case AddRef w this of None \<Rightarrow> None | Some w1 \<Rightarrow> run_calls w1 this cs)"
| "run_calls w this (DoRelease # cs) =
     (case Release w this of None \<Rightarrow> None | Some w1 \<Rightarrow> run_calls w1 this cs)"

subsection \<open>Names (Object.cpp)\<close>

text \<open>
  \<^verbatim>\<open>Object::GetFullName\<close> and \<^verbatim>\<open>Object::GetPathName\<close> recurse through \<^verbatim>\<open>OuterPrivate\<close>.
  On a cyclic chain the C++ recursion never returns, and on a pointer to no live entity
  it is undefined: both are the value \<open>None\<close>.
\<close>

partial_function (option) GetFullName :: "(addr \<rightharpoonup> ObjectBase) \<Rightarrow> addr \<Rightarrow> string option" where
  "GetFullName h this =
     (case h this of
        None \<Rightarrow> None
      | Some obj \<Rightarrow>
          (case OuterPrivate obj of
             None \<Rightarrow> Some (Name obj)
           | Some outer \<Rightarrow>
               Option.bind (GetFullName h outer) (\<lambda>s. Some (s @ ''.'' @ Name obj))))"

partial_function (option) GetPathName :: "(addr \<rightharpoonup> ObjectBase) \<Rightarrow> addr \<Rightarrow> string option" where
  "GetPathName h this =
     (case h this of
        None \<Rightarrow> None
      | Some obj \<Rightarrow>
          (case OuterPrivate obj of
             None \<Rightarrow> Some (Name obj)
           | Some outer \<Rightarrow>
               Option.bind (GetPathName h outer) (\<lambda>s. Some (s @ ''/'' @ Name obj))))"

text \<open>
  The Outer chain of an entity, from the entity itself to its root: every entity on it
  is live, each is the Outer of the one before, and the last has no Outer. A chain that
  is such a list is finite and has no cycle; its length is the depth of the nesting.
\<close>

fun OuterChain :: "(addr \<rightharpoonup> ObjectBase) \<Rightarrow> addr \<Rightarrow> addr list \<Rightarrow> bool" where
  "OuterChain h this [] = False"
| "OuterChain h this (q # qs) =
     (q = this \<and>
      (case h this of
         None \<Rightarrow> False
       | Some obj \<Rightarrow>
           (case OuterPrivate obj of
              None \<Rightarrow> qs = []
            | Some outer \<Rightarrow> OuterChain h outer qs)))"

definition name_at :: "(addr \<rightharpoonup> ObjectBase) \<Rightarrow> addr \<Rightarrow> string" where
  "name_at h q = (case h q of None \<Rightarrow> [] | Some obj \<Rightarrow> Name obj)"

text \<open>The segments joined with a separator, and a string cut at a separator character.\<close>

fun joined :: "string \<Rightarrow> string list \<Rightarrow> string" where
  "joined sep [] = []"
| "joined sep [x] = x"
| "joined sep (x # y # ys) = x @ sep @ joined sep (y # ys)"

fun segments :: "char \<Rightarrow> string \<Rightarrow> string list" where
  "segments c [] = [[]]"
| "segments c (x # xs) =
     (if x = c then [] # segments c xs
      else (case segments c xs of [] \<Rightarrow> [[x]] | s # ss \<Rightarrow> (x # s) # ss))"

text \<open>Three nested entities: an actor in a level in a world.\<close>

definition heap3 :: "addr \<rightharpoonup> ObjectBase" where
  "heap3 = [1 \<mapsto> Object_ctor\<lparr>Name := ''World''\<rparr>,
            2 \<mapsto> Object_ctor\<lparr>Name := ''Level'', OuterPrivate := Some 1\<rparr>,
            3 \<mapsto> Object_ctor\<lparr>Name := ''Actor'', OuterPrivate := Some 2\<rparr>]"

subsection \<open>The Identity Registry (Object.cpp)\<close>

text \<open>
  \<^verbatim>\<open>ObjectRegistry::RegisterObject\<close>. \<^verbatim>\<open>Objects[name] = object\<close> inserts or overwrites;
  \<^verbatim>\<open>ObjectsByClass[objClass]\<close> makes an empty vector for a class not yet there, and
  \<^verbatim>\<open>push_back\<close> appends.
\<close>

definition RegisterObject :: "world \<Rightarrow> addr option \<Rightarrow> world option" where
  "RegisterObject w object =
     (case object of
        None \<Rightarrow> Some w
      | Some p \<Rightarrow>
          (case GetFullName (heap w) p of
             None \<Rightarrow> None
           | Some name \<Rightarrow>
               (case heap w p of
                  None \<Rightarrow> None
                | Some obj \<Rightarrow>
                    (let w1 = logged (Call_RegisterObject p) w \<lparr>Objects := (Objects w)(name \<mapsto> p)\<rparr>
                     in case GetClass obj of
                          None \<Rightarrow> Some w1
                        | Some objClass \<Rightarrow>
                            Some (w1\<lparr>ObjectsByClass := (ObjectsByClass w1)
                                   (objClass \<mapsto>
                                      (case ObjectsByClass w1 objClass of None \<Rightarrow> [] | Some v \<Rightarrow> v)
                                        @ [p])\<rparr>)))))"

text \<open>
  \<^verbatim>\<open>ObjectRegistry::UnregisterObject\<close>: erases the name, and removes every occurrence of
  the entity from its class's vector (\<^verbatim>\<open>std::remove\<close> then \<^verbatim>\<open>erase\<close>).
\<close>

definition UnregisterObject :: "world \<Rightarrow> addr option \<Rightarrow> world option" where
  "UnregisterObject w object =
     (case object of
        None \<Rightarrow> Some w
      | Some p \<Rightarrow>
          (case GetFullName (heap w) p of
             None \<Rightarrow> None
           | Some name \<Rightarrow>
               (case heap w p of
                  None \<Rightarrow> None
                | Some obj \<Rightarrow>
                    (let w1 = logged (Call_UnregisterObject p) w \<lparr>Objects := (Objects w)(name := None)\<rparr>
                     in case GetClass obj of
                          None \<Rightarrow> Some w1
                        | Some objClass \<Rightarrow>
                            Some (w1\<lparr>ObjectsByClass := (ObjectsByClass w1)
                                   (objClass \<mapsto>
                                      removeAll p
                                        (case ObjectsByClass w1 objClass of None \<Rightarrow> [] | Some v \<Rightarrow> v))\<rparr>)))))"

definition FindObject :: "world \<Rightarrow> string \<Rightarrow> addr option" where
  "FindObject w name = Objects w name"

definition GetObjectsOfClass :: "world \<Rightarrow> cls option \<Rightarrow> addr list" where
  "GetObjectsOfClass w objectClass =
     (case objectClass of
        None \<Rightarrow> []
      | Some c \<Rightarrow> (case ObjectsByClass w c of None \<Rightarrow> [] | Some v \<Rightarrow> v))"

subsection \<open>Lifecycle (Object.cpp)\<close>

text \<open>
  \<^verbatim>\<open>ObjectBase::BeginDestroy\<close>, \<^verbatim>\<open>ObjectBase::FinishDestroy\<close> and the empty
  \<^verbatim>\<open>Object::PostInitProperties\<close> of Object.h.
\<close>

definition BeginDestroy :: "world \<Rightarrow> addr \<Rightarrow> world option" where
  "BeginDestroy w this =
     (case heap w this of
        None \<Rightarrow> None
      | Some obj \<Rightarrow>
          Some (logged (Call_BeginDestroy this) w
                  \<lparr>heap := (heap w)(this \<mapsto> AddFlags obj BeginDestroyed)\<rparr>))"

definition FinishDestroy :: "world \<Rightarrow> addr \<Rightarrow> world option" where
  "FinishDestroy w this =
     (case heap w this of
        None \<Rightarrow> None
      | Some obj \<Rightarrow>
          Some (logged (Call_FinishDestroy this) w
                  \<lparr>heap := (heap w)(this \<mapsto> AddFlags obj FinishDestroyed)\<rparr>))"

definition PostInitProperties :: "world \<Rightarrow> addr \<Rightarrow> world option" where
  "PostInitProperties w this =
     (case heap w this of
        None \<Rightarrow> None
      | Some obj \<Rightarrow> Some (logged (Call_PostInitProperties this) w))"

text \<open>
  \<^verbatim>\<open>Class::CreateObject\<close> is virtual. The base implementation of Object.cpp returns
  \<^verbatim>\<open>nullptr\<close>; a concrete class overrides it. A factory is what the call
  \<^verbatim>\<open>objectClass->CreateObject(outer, name)\<close> dispatches to.
\<close>

type_synonym factory = "world \<Rightarrow> addr option \<Rightarrow> string \<Rightarrow> (addr option \<times> world) option"

definition Class_CreateObject :: factory where
  "Class_CreateObject w outer name = Some (None, w)"

text \<open>
  \<^verbatim>\<open>Object::CreateObject(Class*, Object*, const std::string&)\<close>. \<open>vtable\<close> gives the
  factory of each class.
\<close>

definition CreateObject ::
  "(cls \<Rightarrow> factory) \<Rightarrow> world \<Rightarrow> cls option \<Rightarrow> addr option \<Rightarrow> string \<Rightarrow> (addr option \<times> world) option"
where
  "CreateObject vtable w objectClass outer name =
     (case objectClass of
        None \<Rightarrow> Some (None, w)
      | Some c \<Rightarrow>
          (case vtable c w outer name of
             None \<Rightarrow> None
           | Some (None, w1) \<Rightarrow> Some (None, w1)
           | Some (Some newObject, w1) \<Rightarrow>
               (case RegisterObject w1 (Some newObject) of
                  None \<Rightarrow> None
                | Some w2 \<Rightarrow>
                    (case PostInitProperties w2 newObject of
                       None \<Rightarrow> None
                     | Some w3 \<Rightarrow> Some (Some newObject, w3)))))"

text \<open>\<^verbatim>\<open>Object::DestroyObject\<close>, statement by statement.\<close>

definition DestroyObject :: "world \<Rightarrow> addr option \<Rightarrow> world option" where
  "DestroyObject w object =
     (case object of
        None \<Rightarrow> Some w
      | Some p \<Rightarrow>
          (case BeginDestroy w p of
             None \<Rightarrow> None
           | Some w1 \<Rightarrow>
               (case UnregisterObject w1 (Some p) of
                  None \<Rightarrow> None
                | Some w2 \<Rightarrow>
                    (case FinishDestroy w2 p of
                       None \<Rightarrow> None
                     | Some w3 \<Rightarrow> Release w3 p))))"

text \<open>
  A factory as a concrete class supplies it: a new entity at the address \<open>a\<close>, built by
  the constructors, then given its class, its Outer and its name. It serves where a
  theorem is applied to a concrete input.
\<close>

definition factory_at :: "addr \<Rightarrow> cls \<Rightarrow> factory" where
  "factory_at a c w outer name =
     Some (Some a,
           w\<lparr>heap := (heap w)(a \<mapsto> Object_ctor\<lparr>Name := name, ClassPrivate := Some c,
                                                OuterPrivate := outer\<rparr>)\<rparr>)"

text \<open>Concrete states: two entities of one name and different classes, not yet registered;
  and one registered entity. The order of two calls in a log.\<close>

definition registry_world :: world where
  "registry_world =
     world0\<lparr>heap := [4 \<mapsto> Object_ctor\<lparr>Name := ''Hero'', ClassPrivate := Some 10\<rparr>,
                     5 \<mapsto> Object_ctor\<lparr>Name := ''Hero'', ClassPrivate := Some 20\<rparr>]\<rparr>"

definition hero_world :: world where
  "hero_world =
     world0\<lparr>heap := [4 \<mapsto> Object_ctor\<lparr>Name := ''Hero'', ClassPrivate := Some 10\<rparr>],
            Objects := [''Hero'' \<mapsto> 4],
            ObjectsByClass := [10 \<mapsto> [4]]\<rparr>"

fun happens_before :: "event \<Rightarrow> event \<Rightarrow> event list \<Rightarrow> bool" where
  "happens_before a b [] = False"
| "happens_before a b (e # es) = (if e = a then b \<in> set es else happens_before a b es)"

subsection \<open>The Owning Reference \<^verbatim>\<open>ObjectPtr<T>\<close> (Object.h)\<close>



text \<open>\<^verbatim>\<open>ObjectPtr() : Ptr(nullptr) {}\<close>\<close>

definition ObjectPtr_ctor :: "world \<Rightarrow> nat \<Rightarrow> world option" where
  "ObjectPtr_ctor w this = Some (w\<lparr>handles := (handles w)(this \<mapsto> None)\<rparr>)"







definition ObjectPtr_Get :: "world \<Rightarrow> nat \<Rightarrow> addr option" where
  "ObjectPtr_Get w this = (case handles w this of None \<Rightarrow> None | Some ptr \<Rightarrow> ptr)"

definition ObjectPtr_IsValid :: "world \<Rightarrow> nat \<Rightarrow> bool" where
  "ObjectPtr_IsValid w this = (ObjectPtr_Get w this \<noteq> None)"




section \<open>Archive.h: flags and the state queries\<close>

type_synonym ArchiveFlags = "32 word"

definition ArchiveFlags_None :: ArchiveFlags where "ArchiveFlags_None = 0"
definition Loading :: ArchiveFlags where "Loading = push_bit 0 1"
definition Saving :: ArchiveFlags where "Saving = push_bit 1 1"
definition Binary :: ArchiveFlags where "Binary = push_bit 2 1"
definition Text :: ArchiveFlags where "Text = push_bit 3 1"
definition Persistent :: ArchiveFlags where "Persistent = push_bit 4 1"
definition Volatile :: ArchiveFlags where "Volatile = push_bit 5 1"

text \<open>\<^verbatim>\<open>class Archive\<close>: the base class holds the flags; a backend extends the record.\<close>

record Archive =
  Flags :: ArchiveFlags

definition Archive_ctor :: "ArchiveFlags \<Rightarrow> Archive" where
  "Archive_ctor flags = \<lparr>Flags = flags\<rparr>"

definition IsLoading :: "'a Archive_scheme \<Rightarrow> bool" where
  "IsLoading ar = (Flags ar AND Loading \<noteq> ArchiveFlags_None)"

definition IsSaving :: "'a Archive_scheme \<Rightarrow> bool" where
  "IsSaving ar = (Flags ar AND Saving \<noteq> ArchiveFlags_None)"

definition IsBinary :: "'a Archive_scheme \<Rightarrow> bool" where
  "IsBinary ar = (Flags ar AND Binary \<noteq> ArchiveFlags_None)"

definition IsText :: "'a Archive_scheme \<Rightarrow> bool" where
  "IsText ar = (Flags ar AND Text \<noteq> ArchiveFlags_None)"

definition IsPersistent :: "'a Archive_scheme \<Rightarrow> bool" where
  "IsPersistent ar = (Flags ar AND Persistent \<noteq> ArchiveFlags_None)"

subsection \<open>\<^verbatim>\<open>Archive::SerializeArray\<close> (Archive.h)\<close>

text \<open>
  The operators \<^verbatim>\<open>virtual Archive& operator<<(T& value) = 0\<close> are pure virtual: a backend
  defines them. A call takes the archive and the caller's variable and gives back both,
  or fails with an error of the backend (in C++ an exception that leaves
  \<open>SerializeArray\<close>). Archive.h itself raises none; the one other exception that can leave
  \<open>SerializeArray\<close> is that of the vector's allocation, \<^verbatim>\<open>std::bad_alloc\<close> (or
  \<^verbatim>\<open>std::length_error\<close> beyond \<^verbatim>\<open>max_size()\<close>), here \<open>BadAlloc\<close>.
\<close>

datatype archive_error = OutOfBounds | ResourceExhausted | IOError | BadAlloc

type_synonym ('v, 's) shl = "'s \<Rightarrow> 'v \<Rightarrow> archive_error + ('v \<times> 's)"

text \<open>
  \<^verbatim>\<open>std::vector<T>::resize(n)\<close>. A count \<open>n\<close> up to the current size keeps the first \<open>n\<close>
  elements and allocates nothing. A larger count needs storage for \<open>n\<close> elements: the
  allocator supplies it, and the vector is filled up to the size \<open>n\<close> with value-initialised
  elements (\<open>dflt\<close> is \<^verbatim>\<open>T()\<close>), or it refuses and \<open>resize\<close> throws. \<open>avail\<close> is the largest
  number of elements the allocator supplies.
\<close>

definition resize :: "nat \<Rightarrow> 't \<Rightarrow> nat \<Rightarrow> 't list \<Rightarrow> archive_error + 't list" where
  "resize avail dflt n xs =
     (if n \<le> length xs then Inr (take n xs)
      else if n \<le> avail then Inr (xs @ replicate (n - length xs) dflt)
      else Inl BadAlloc)"

text \<open>\<^verbatim>\<open>for (auto& element : array) { *this << element; }\<close>\<close>

fun serialize_each :: "('t, 's) shl \<Rightarrow> 's \<Rightarrow> 't list \<Rightarrow> archive_error + ('t list \<times> 's)" where
  "serialize_each shl_T ar [] = Inr ([], ar)"
| "serialize_each shl_T ar (element # rest) =
     (case shl_T ar element of
        Inl e \<Rightarrow> Inl e
      | Inr (element', ar1) \<Rightarrow>
          (case serialize_each shl_T ar1 rest of
             Inl e \<Rightarrow> Inl e
           | Inr (rest', ar2) \<Rightarrow> Inr (element' # rest', ar2)))"

text \<open>
  \<^verbatim>\<open>template<typename T> void SerializeArray(std::vector<T>& array)\<close>.
  \<^verbatim>\<open>static_cast<uint32_t>(array.size())\<close> keeps the low 32 bits of the size;
  \<^verbatim>\<open>*this << size\<close> may overwrite \<open>size\<close>; \<open>IsLoading()\<close> is asked after it, and
  \<^verbatim>\<open>array.resize(size)\<close> gets the value as it is. An exception of \<open>resize\<close> leaves the
  function before any element is serialized.
\<close>

definition SerializeArray ::
  "nat \<Rightarrow> (32 word, 'b Archive_scheme) shl \<Rightarrow> ('t, 'b Archive_scheme) shl \<Rightarrow> 't \<Rightarrow>
   'b Archive_scheme \<Rightarrow> 't list \<Rightarrow> archive_error + ('t list \<times> 'b Archive_scheme)"
where
  "SerializeArray avail shl_uint32 shl_T dflt ar array =
     (let size = (word_of_nat (length array) :: 32 word) in
      case shl_uint32 ar size of
        Inl e \<Rightarrow> Inl e
      | Inr (size', ar1) \<Rightarrow>
          (if IsLoading ar1 then
             (case resize avail dflt (unat size') array of
                Inl e \<Rightarrow> Inl e
              | Inr array1 \<Rightarrow> serialize_each shl_T ar1 array1)
           else serialize_each shl_T ar1 array))"

text \<open>
  A backend for tests. It reads typed cells from a tape when Loading and appends typed
  cells to its output otherwise; reading a cell that is not there is out of bounds.
\<close>

datatype 't cell = U32 "32 word" | Elem 't

record 't TapeArchive = Archive +
  tape :: "'t cell list"
  written :: "'t cell list"

definition tape_uint32 :: "(32 word, 't TapeArchive) shl" where
  "tape_uint32 ar v =
     (if IsLoading ar then
        (case tape ar of
           U32 n # rest \<Rightarrow> Inr (n, ar\<lparr>tape := rest\<rparr>)
         | _ \<Rightarrow> Inl OutOfBounds)
      else Inr (v, ar\<lparr>written := written ar @ [U32 v]\<rparr>))"

definition tape_T :: "('t, 't TapeArchive) shl" where
  "tape_T ar v =
     (if IsLoading ar then
        (case tape ar of
           Elem x # rest \<Rightarrow> Inr (x, ar\<lparr>tape := rest\<rparr>)
         | _ \<Rightarrow> Inl OutOfBounds)
      else Inr (v, ar\<lparr>written := written ar @ [Elem v]\<rparr>))"

definition TapeArchive_ctor :: "ArchiveFlags \<Rightarrow> 't cell list \<Rightarrow> 't TapeArchive" where
  "TapeArchive_ctor flags cells = \<lparr>Flags = flags, tape = cells, written = []\<rparr>"

text \<open>
  A Loading backend whose length prefix is always \<open>n\<close> and whose element operator leaves
  the element as it is.
\<close>

definition fixed_uint32 :: "32 word \<Rightarrow> (32 word, Archive) shl" where
  "fixed_uint32 n ar v = Inr (n, ar)"

definition keep_T :: "('t, Archive) shl" where
  "keep_T ar v = Inr (v, ar)"

subsection \<open>The memory backend \<^verbatim>\<open>MemoryArchive\<close>\<close>

text \<open>
  Archive.h declares \<^verbatim>\<open>class MemoryArchive\<close>, its two fields, its constructors and its
  operators; no source file of the repository defines their bodies. The definitions of
  this subsection are therefore written from the specification (section 4.5, "Memory
  Archive", and section 6), and each says so. The specification leaves the byte order to
  the implementer and says nothing of how a string is laid out: here a fixed-width value
  is its bytes, least significant first; a \<^verbatim>\<open>bool\<close> is one byte; a \<^verbatim>\<open>float\<close> and a
  \<^verbatim>\<open>double\<close> are the 4 and 8 bytes of their bit pattern, and the model holds such a
  variable as that bit pattern; and a string is, like an array, a 32-bit count followed
  by its characters.
\<close>

type_synonym byte = "8 word"

record MemoryArchive = Archive +
  Data :: "byte list"
  Position :: nat

text \<open>
  Modelled from the spec: the body of \<^verbatim>\<open>MemoryArchive(bool loading = false)\<close>. The
  direction is Loading or Saving as the argument says; the buffer is empty and the cursor
  at 0.
\<close>

definition MemoryArchive_ctor :: "bool \<Rightarrow> MemoryArchive" where
  "MemoryArchive_ctor loading =
     \<lparr>Flags = (if loading then Loading else Saving), Data = [], Position = 0\<rparr>"

text \<open>
  Modelled from the spec: the body of
  \<^verbatim>\<open>MemoryArchive(const std::vector<uint8_t>& data, bool loading = true)\<close>, an archive over
  a copy of the given bytes with the cursor at 0.
\<close>

definition MemoryArchive_ctor_data :: "byte list \<Rightarrow> bool \<Rightarrow> MemoryArchive" where
  "MemoryArchive_ctor_data data loading =
     \<lparr>Flags = (if loading then Loading else Saving), Data = data, Position = 0\<rparr>"

text \<open>
  Modelled from the spec: the bodies of \<^verbatim>\<open>MemoryArchive::Seek\<close>, \<^verbatim>\<open>Tell\<close> and
  \<^verbatim>\<open>TotalSize\<close>, which "manipulate and report the cursor and buffer length directly".
\<close>

definition Seek :: "MemoryArchive \<Rightarrow> nat \<Rightarrow> MemoryArchive" where
  "Seek ar position = ar\<lparr>Position := position\<rparr>"

definition Tell :: "MemoryArchive \<Rightarrow> nat" where
  "Tell ar = Position ar"

definition TotalSize :: "MemoryArchive \<Rightarrow> nat" where
  "TotalSize ar = length (Data ar)"

text \<open>
  Modelled from the spec: what every saving operator of \<^verbatim>\<open>MemoryArchive\<close> does with the
  bytes of its value. "Saving appends/overwrites bytes at the cursor and advances it,
  growing the buffer as needed."
\<close>

definition write_bytes :: "MemoryArchive \<Rightarrow> byte list \<Rightarrow> MemoryArchive" where
  "write_bytes ar bs =
     ar\<lparr>Data := take (Position ar) (Data ar @ replicate (Position ar - length (Data ar)) 0)
                  @ bs @ drop (Position ar + length bs) (Data ar),
        Position := Position ar + length bs\<rparr>"

text \<open>
  Modelled from the spec: what every loading operator of \<^verbatim>\<open>MemoryArchive\<close> does to get
  the bytes of its value. "Loading reads bytes at the cursor and advances it; reading past
  the end is an out-of-bounds condition and must fail cleanly."
\<close>

definition read_bytes :: "MemoryArchive \<Rightarrow> nat \<Rightarrow> archive_error + (byte list \<times> MemoryArchive)" where
  "read_bytes ar n =
     (if Position ar + n \<le> length (Data ar)
      then Inr (take n (drop (Position ar) (Data ar)), ar\<lparr>Position := Position ar + n\<rparr>)
      else Inl OutOfBounds)"

text \<open>
  Modelled from the spec: the layout of a fixed-width value, which the spec leaves to the
  implementer ("little/big-endian as chosen by the implementer"). \<open>bytes_of n w\<close> are the
  \<open>n\<close> low bytes of \<open>w\<close>, least significant first.
\<close>

fun bytes_of :: "nat \<Rightarrow> 'a::len word \<Rightarrow> byte list" where
  "bytes_of 0 w = []"
| "bytes_of (Suc n) w = ucast w # bytes_of n (drop_bit 8 w)"

text \<open>
  Modelled from the spec: the value that a loading operator of \<^verbatim>\<open>MemoryArchive\<close> makes of
  the bytes it has read, least significant first.
\<close>

fun word_of_bytes :: "byte list \<Rightarrow> 'a::len word" where
  "word_of_bytes [] = 0"
| "word_of_bytes (b # bs) = ucast b OR push_bit 8 (word_of_bytes bs)"

text \<open>
  Modelled from the spec: the body shared by the integer and floating-point operators of
  \<^verbatim>\<open>MemoryArchive\<close>, for a value of \<open>n\<close> bytes. "When Loading, the operation reads the next
  value of that type from the backend and overwrites the caller's variable; when Saving,
  it writes the caller's current value to the backend"; an archive that is neither is
  inert.
\<close>

definition shl_word :: "nat \<Rightarrow> ('a::len word, MemoryArchive) shl" where
  "shl_word n ar v =
     (if IsLoading ar then
        (case read_bytes ar n of
           Inl e \<Rightarrow> Inl e
         | Inr (bs, ar') \<Rightarrow> Inr (word_of_bytes bs, ar'))
      else if IsSaving ar then Inr (v, write_bytes ar (bytes_of n v))
      else Inr (v, ar))"

text \<open>
  Modelled from the spec: the body of \<^verbatim>\<open>MemoryArchive::operator<<(bool&)\<close>, one byte, 1
  for true and 0 for false; a byte other than 0 loads as true.
\<close>

definition shl_bool :: "(bool, MemoryArchive) shl" where
  "shl_bool ar v =
     (if IsLoading ar then
        (case read_bytes ar 1 of
           Inl e \<Rightarrow> Inl e
         | Inr (bs, ar') \<Rightarrow> Inr (bs \<noteq> [0], ar'))
      else if IsSaving ar then Inr (v, write_bytes ar [if v then 1 else 0])
      else Inr (v, ar))"

text \<open>
  Modelled from the spec: the bytes of the characters of a \<^verbatim>\<open>std::string\<close>, one byte
  each.
\<close>

definition byte_of_char :: "char \<Rightarrow> byte" where
  "byte_of_char c = word_of_nat (of_char c)"

definition char_of_byte :: "byte \<Rightarrow> char" where
  "char_of_byte b = char_of (unat b)"

text \<open>
  Modelled from the spec: the body of \<^verbatim>\<open>MemoryArchive::operator<<(std::string&)\<close>. The
  spec gives a layout for sequences only (section 6, "4-byte (32-bit) unsigned length
  prefix ... followed by that many serialized elements with no padding"); the string is
  laid out the same way, its size cast to \<^verbatim>\<open>uint32_t\<close> as \<open>SerializeArray\<close> casts it.
\<close>

definition shl_string :: "(string, MemoryArchive) shl" where
  "shl_string ar v =
     (if IsLoading ar then
        (case read_bytes ar 4 of
           Inl e \<Rightarrow> Inl e
         | Inr (ls, ar1) \<Rightarrow>
             (case read_bytes ar1 (unat (word_of_bytes ls :: 32 word)) of
                Inl e \<Rightarrow> Inl e
              | Inr (bs, ar2) \<Rightarrow> Inr (map char_of_byte bs, ar2)))
      else if IsSaving ar then
        Inr (v, write_bytes (write_bytes ar (bytes_of 4 (word_of_nat (length v) :: 32 word)))
                  (map byte_of_char v))
      else Inr (v, ar))"

text \<open>
  A variable of one of the twelve primitive types of \<^verbatim>\<open>Archive\<close>, with its value. The
  signed and the unsigned integer of a width have the same bytes; \<open>sint\<close> and \<open>uint\<close> read
  them.
\<close>

datatype prim =
    P_bool bool
  | P_int8 "8 word"
  | P_uint8 "8 word"
  | P_int16 "16 word"
  | P_uint16 "16 word"
  | P_int32 "32 word"
  | P_uint32 "32 word"
  | P_int64 "64 word"
  | P_uint64 "64 word"
  | P_float "32 word"
  | P_double "64 word"
  | P_string string

definition tagged :: "('v \<Rightarrow> prim) \<Rightarrow> archive_error + ('v \<times> MemoryArchive) \<Rightarrow>
    archive_error + (prim \<times> MemoryArchive)" where
  "tagged f r = (case r of Inl e \<Rightarrow> Inl e | Inr (v, ar) \<Rightarrow> Inr (f v, ar))"

text \<open>
  Modelled from the spec: the twelve overloads \<^verbatim>\<open>MemoryArchive::operator<<\<close> of Archive.h,
  chosen by the type of the variable, each with the width of its type.
\<close>

fun shl_prim :: "(prim, MemoryArchive) shl" where
  "shl_prim ar (P_bool v) = tagged P_bool (shl_bool ar v)"
| "shl_prim ar (P_int8 v) = tagged P_int8 (shl_word 1 ar v)"
| "shl_prim ar (P_uint8 v) = tagged P_uint8 (shl_word 1 ar v)"
| "shl_prim ar (P_int16 v) = tagged P_int16 (shl_word 2 ar v)"
| "shl_prim ar (P_uint16 v) = tagged P_uint16 (shl_word 2 ar v)"
| "shl_prim ar (P_int32 v) = tagged P_int32 (shl_word 4 ar v)"
| "shl_prim ar (P_uint32 v) = tagged P_uint32 (shl_word 4 ar v)"
| "shl_prim ar (P_int64 v) = tagged P_int64 (shl_word 8 ar v)"
| "shl_prim ar (P_uint64 v) = tagged P_uint64 (shl_word 8 ar v)"
| "shl_prim ar (P_float v) = tagged P_float (shl_word 4 ar v)"
| "shl_prim ar (P_double v) = tagged P_double (shl_word 8 ar v)"
| "shl_prim ar (P_string v) = tagged P_string (shl_string ar v)"

text \<open>A fresh variable of the type of a given one: false, zero, or the empty string.\<close>

fun fresh :: "prim \<Rightarrow> prim" where
  "fresh (P_bool v) = P_bool False"
| "fresh (P_int8 v) = P_int8 0"
| "fresh (P_uint8 v) = P_uint8 0"
| "fresh (P_int16 v) = P_int16 0"
| "fresh (P_uint16 v) = P_uint16 0"
| "fresh (P_int32 v) = P_int32 0"
| "fresh (P_uint32 v) = P_uint32 0"
| "fresh (P_int64 v) = P_int64 0"
| "fresh (P_uint64 v) = P_uint64 0"
| "fresh (P_float v) = P_float 0"
| "fresh (P_double v) = P_double 0"
| "fresh (P_string v) = P_string []"

text \<open>The bytes a value takes in the buffer, and the values whose string sizes fit the count.\<close>

fun wire :: "prim \<Rightarrow> byte list" where
  "wire (P_bool v) = [if v then 1 else 0]"
| "wire (P_int8 v) = bytes_of 1 v"
| "wire (P_uint8 v) = bytes_of 1 v"
| "wire (P_int16 v) = bytes_of 2 v"
| "wire (P_uint16 v) = bytes_of 2 v"
| "wire (P_int32 v) = bytes_of 4 v"
| "wire (P_uint32 v) = bytes_of 4 v"
| "wire (P_int64 v) = bytes_of 8 v"
| "wire (P_uint64 v) = bytes_of 8 v"
| "wire (P_float v) = bytes_of 4 v"
| "wire (P_double v) = bytes_of 8 v"
| "wire (P_string v) = bytes_of 4 (word_of_nat (length v) :: 32 word) @ map byte_of_char v"

fun fits :: "prim \<Rightarrow> bool" where
  "fits (P_string v) = (length v < 2 ^ 32)"
| "fits v = True"

text \<open>
  Saving a sequence of variables to a new memory archive, and loading the bytes it holds
  into fresh variables of the same types through a new loading archive.
\<close>

definition save_all :: "prim list \<Rightarrow> archive_error + (prim list \<times> MemoryArchive)" where
  "save_all vs = serialize_each shl_prim (MemoryArchive_ctor False) vs"

definition load_all :: "byte list \<Rightarrow> prim list \<Rightarrow> archive_error + (prim list \<times> MemoryArchive)" where
  "load_all bytes vars = serialize_each shl_prim (MemoryArchive_ctor_data bytes True) vars"

definition save_then_load :: "prim list \<Rightarrow> archive_error + (prim list \<times> MemoryArchive)" where
  "save_then_load vs =
     (case save_all vs of
        Inl e \<Rightarrow> Inl e
      | Inr (vs', ar) \<Rightarrow> load_all (Data ar) (map fresh vs))"

section \<open>Theorems\<close>

subsection \<open>Archive state queries\<close>

lemma IsLoading_bit: "IsLoading ar = bit (Flags ar) 0"
  unfolding IsLoading_def Loading_def ArchiveFlags_None_def
  by (simp only: bit_iff_and_push_bit_not_eq_0)

lemma IsSaving_bit: "IsSaving ar = bit (Flags ar) 1"
  unfolding IsSaving_def Saving_def ArchiveFlags_None_def
  by (simp only: bit_iff_and_push_bit_not_eq_0)

text \<open>
  C10. For every flags value an archive is constructed with, \<open>IsLoading\<close> is bit 0 (the
  Loading bit) and \<open>IsSaving\<close> is bit 1 (the Saving bit) of it, each computed from its own
  bit alone. An archive constructed with both flags reports both queries true, and one
  constructed with no flag reports both false: the constructor does not enforce that the
  two exclude each other.
\<close>

theorem Archive_state_queries:
  "IsLoading (Archive_ctor flags) = bit flags 0 \<and>
   IsSaving (Archive_ctor flags) = bit flags 1 \<and>
   IsLoading (Archive_ctor (Loading OR Saving)) \<and>
   IsSaving (Archive_ctor (Loading OR Saving)) \<and>
   \<not> IsLoading (Archive_ctor ArchiveFlags_None) \<and>
   \<not> IsSaving (Archive_ctor ArchiveFlags_None)"
  by (simp add: IsLoading_bit IsSaving_bit Archive_ctor_def Loading_def Saving_def
        ArchiveFlags_None_def bit_simps)

subsection \<open>The reference counter\<close>

lemma run_calls_dead:
  "heap w p = None \<Longrightarrow> run_calls w p cs = Some w' \<Longrightarrow> heap w' p = None"
  by (cases cs; cases "hd cs") (auto simp: AddRef_def Release_def)

lemma AddRef_count:
  "AddRef w p = Some w1 \<Longrightarrow> heap w p = Some obj \<Longrightarrow>
   heap w1 p = Some (obj\<lparr>RefCount := RefCount obj + 1\<rparr>)"
  by (auto simp: AddRef_def logged_def)

lemma Release_count:
  "Release w p = Some w1 \<Longrightarrow> heap w p = Some obj \<Longrightarrow> heap w1 p \<noteq> None \<Longrightarrow>
   heap w1 p = Some (obj\<lparr>RefCount := RefCount obj - 1\<rparr>)"
  by (auto simp: Release_def logged_def delete_this_def Let_def split: if_splits)

lemma run_calls_count:
  "run_calls w p cs = Some w' \<Longrightarrow> heap w p = Some obj \<Longrightarrow> heap w' p = Some obj' \<Longrightarrow>
   RefCount obj' =
     RefCount obj + of_nat (count_list cs DoAddRef) - of_nat (count_list cs DoRelease)"
proof (induction cs arbitrary: w obj)
  case Nil
  then show ?case by simp
next
  case (Cons c cs)
  show ?case
  proof (cases c)
    case DoAddRef
    with Cons.prems obtain w1 where w1: "AddRef w p = Some w1" "run_calls w1 p cs = Some w'"
      by (auto split: option.splits)
    from Cons.IH[OF w1(2) AddRef_count[OF w1(1) Cons.prems(2)] Cons.prems(3)] DoAddRef
    show ?thesis by simp
  next
    case DoRelease
    with Cons.prems obtain w1 where w1: "Release w p = Some w1" "run_calls w1 p cs = Some w'"
      by (auto split: option.splits)
    have alive: "heap w1 p \<noteq> None"
      using run_calls_dead[OF _ w1(2)] Cons.prems(3) by auto
    from Cons.IH[OF w1(2) Release_count[OF w1(1) Cons.prems(2) alive] Cons.prems(3)] DoRelease
    show ?thesis by simp
  qed
qed

lemma sint_word_of_int_small:
  "- (2 ^ 31) \<le> k \<Longrightarrow> k < 2 ^ 31 \<Longrightarrow> sint (word_of_int k :: 32 word) = k"
  by (simp add: sint_sbintrunc' signed_take_bit_int_eq_self)

lemma sint_small:
  fixes n m :: nat
  assumes "m \<le> n" and "1 + int n - int m < 2 ^ 31"
  shows "sint (1 + of_nat n - of_nat m :: 32 word) = 1 + int n - int m"
proof -
  have "(1 + of_nat n - of_nat m :: 32 word) = word_of_int (1 + int n - int m)"
    by simp
  moreover have "sint (word_of_int (1 + int n - int m) :: 32 word) = 1 + int n - int m"
    using assms by (intro sint_word_of_int_small) simp_all
  ultimately show ?thesis by (simp only:)
qed

text \<open>
  C1. The constructors leave the reference counter at 1. After a sequence of calls with N
  \<open>AddRef()\<close> and M \<open>Release()\<close> on an entity whose counter is as the constructor left it,
  in any order, with N \<ge> M and the entity still alive at the end (no \<open>Release()\<close> deleted
  it), \<open>GetRefCount()\<close> is 1 + N - M: in the \<^verbatim>\<open>int32_t\<close> arithmetic of the counter for all
  N and M, and as the integer itself whenever 1 + N - M is an \<^verbatim>\<open>int32_t\<close> value.
\<close>

theorem GetRefCount_after_calls:
  assumes "heap w p = Some obj"
    and "GetRefCount obj = GetRefCount Object_ctor"
    and "run_calls w p cs = Some w'"
    and "heap w' p = Some obj'"
    and "N = count_list cs DoAddRef"
    and "M = count_list cs DoRelease"
    and "M \<le> N"
  shows "GetRefCount ObjectBase_ctor = 1 \<and> GetRefCount Object_ctor = 1 \<and>
         GetRefCount obj' = 1 + of_nat N - of_nat M \<and>
         (if 1 + int N - int M < 2 ^ 31
          then sint (GetRefCount obj') = 1 + int N - int M
          else True)"
proof -
  have c1: "GetRefCount ObjectBase_ctor = 1" "GetRefCount Object_ctor = 1"
    by (simp_all add: GetRefCount_def Object_ctor_def ObjectBase_ctor_def AddFlags_def)
  have eq: "GetRefCount obj' = 1 + of_nat N - of_nat M"
    using run_calls_count[OF assms(3) assms(1) assms(4)] assms(2,5,6) c1
    by (simp add: GetRefCount_def)
  show ?thesis
    using c1 eq sint_small[OF assms(7)] by simp
qed

theorem GetRefCount_after_calls_witness:
  "\<exists>w'. run_calls (world0\<lparr>heap := [7 \<mapsto> Object_ctor]\<rparr>) 7 [DoAddRef, DoAddRef, DoRelease] = Some w' \<and>
        (\<exists>obj'. heap w' 7 = Some obj' \<and> GetRefCount obj' = 2 \<and> sint (GetRefCount obj') = 2)"
proof -
  let ?w = "world0\<lparr>heap := [7 \<mapsto> Object_ctor]\<rparr>"
  let ?cs = "[DoAddRef, DoAddRef, DoRelease]"
  obtain w' where run: "run_calls ?w 7 ?cs = Some w'"
    by (simp add: AddRef_def Release_def logged_def Object_ctor_def ObjectBase_ctor_def
          AddFlags_def world0_def)
  then obtain obj' where live: "heap w' 7 = Some obj'"
    by (auto simp: AddRef_def Release_def logged_def Object_ctor_def ObjectBase_ctor_def
          AddFlags_def world0_def)
  have "GetRefCount obj' = 1 + of_nat 2 - of_nat 1 \<and>
        (if 1 + int 2 - int 1 < 2 ^ 31 then sint (GetRefCount obj') = 1 + int 2 - int 1 else True)"
    using GetRefCount_after_calls[of ?w 7 Object_ctor ?cs w' obj' 2 1] run live
    by (simp add: world0_def)
  then show ?thesis using run live by simp
qed
subsection \<open>Full names and path names\<close>

lemma joined_snoc: "xs \<noteq> [] \<Longrightarrow> joined sep (xs @ [x]) = joined sep xs @ sep @ x"
  by (induction sep xs rule: joined.induct) auto

lemma OuterChain_nonempty: "OuterChain h p ps \<Longrightarrow> ps \<noteq> []"
  by (cases ps) auto

lemma name_at_live: "h p = Some obj \<Longrightarrow> name_at h p = Name obj"
  by (simp add: name_at_def)

lemma GetFullName_chain:
  "OuterChain h p ps \<Longrightarrow> GetFullName h p = Some (joined ''.'' (map (name_at h) (rev ps)))"
proof (induction ps arbitrary: p)
  case Nil
  then show ?case by simp
next
  case (Cons q qs)
  from Cons.prems obtain obj where obj: "q = p" "h p = Some obj"
    by (auto split: option.splits)
  show ?case
  proof (cases "OuterPrivate obj")
    case None
    with Cons.prems obj have "qs = []" by simp
    with obj None show ?thesis
      by (subst GetFullName.simps) (simp add: name_at_live)
  next
    case (Some r)
    with Cons.prems obj have ch: "OuterChain h r qs" by simp
    from Cons.IH[OF ch] OuterChain_nonempty[OF ch] obj Some show ?thesis
      by (subst GetFullName.simps) (simp add: name_at_live joined_snoc)
  qed
qed

lemma GetPathName_chain:
  "OuterChain h p ps \<Longrightarrow> GetPathName h p = Some (joined ''/'' (map (name_at h) (rev ps)))"
proof (induction ps arbitrary: p)
  case Nil
  then show ?case by simp
next
  case (Cons q qs)
  from Cons.prems obtain obj where obj: "q = p" "h p = Some obj"
    by (auto split: option.splits)
  show ?case
  proof (cases "OuterPrivate obj")
    case None
    with Cons.prems obj have "qs = []" by simp
    with obj None show ?thesis
      by (subst GetPathName.simps) (simp add: name_at_live)
  next
    case (Some r)
    with Cons.prems obj have ch: "OuterChain h r qs" by simp
    from Cons.IH[OF ch] OuterChain_nonempty[OF ch] obj Some show ?thesis
      by (subst GetPathName.simps) (simp add: name_at_live joined_snoc)
  qed
qed

lemma segments_plain: "c \<notin> set x \<Longrightarrow> segments c x = [x]"
  by (induction x) auto

lemma segments_append: "c \<notin> set x \<Longrightarrow> segments c (x @ c # r) = x # segments c r"
  by (induction x) auto

lemma segments_joined:
  "xs \<noteq> [] \<Longrightarrow> list_all (\<lambda>x. c \<notin> set x) xs \<Longrightarrow> segments c (joined [c] xs) = xs"
  by (induction "[c]" xs rule: joined.induct) (auto simp: segments_plain segments_append)

text \<open>
  C8. For an entity whose Outer chain is finite and acyclic (the list \<open>chain\<close>, from the
  entity to its root, of length D), \<open>GetFullName()\<close> returns, and its value is the
  entity's own name prefixed by the full name of its Outer (if any) and a \<open>'.'\<close>: the
  names of the chain joined with \<open>'.'\<close>, root first, which are exactly D segments.
  \<open>GetPathName()\<close> is the same with \<open>'/'\<close>. Where no name on the chain contains a \<open>'.'\<close>,
  cutting the full name at the \<open>'.'\<close> characters gives back these D segments.
\<close>

theorem GetFullName_GetPathName_chain:
  assumes "OuterChain h this chain"
  shows "GetFullName h this = Some (joined ''.'' (map (name_at h) (rev chain))) \<and>
         GetPathName h this = Some (joined ''/'' (map (name_at h) (rev chain))) \<and>
         length (map (name_at h) (rev chain)) = length chain \<and>
         (\<exists>obj. h this = Some obj \<and>
            (case OuterPrivate obj of
               None \<Rightarrow> GetFullName h this = Some (Name obj) \<and> GetPathName h this = Some (Name obj)
             | Some outer \<Rightarrow>
                 (\<exists>s t. GetFullName h outer = Some s \<and> GetFullName h this = Some (s @ ''.'' @ Name obj) \<and>
                        GetPathName h outer = Some t \<and> GetPathName h this = Some (t @ ''/'' @ Name obj)))) \<and>
         (if list_all (\<lambda>q. CHR ''.'' \<notin> set (name_at h q)) chain
          then \<exists>s. GetFullName h this = Some s \<and>
                 segments CHR ''.'' s = map (name_at h) (rev chain) \<and>
                 length (segments CHR ''.'' s) = length chain
          else True)"
proof -
  note full = GetFullName_chain[OF assms] and path = GetPathName_chain[OF assms]
  from assms obtain qs obj where obj: "chain = this # qs" "h this = Some obj"
    by (cases chain) (auto split: option.splits)
  have rec: "case OuterPrivate obj of
               None \<Rightarrow> GetFullName h this = Some (Name obj) \<and> GetPathName h this = Some (Name obj)
             | Some outer \<Rightarrow>
                 (\<exists>s t. GetFullName h outer = Some s \<and> GetFullName h this = Some (s @ ''.'' @ Name obj) \<and>
                        GetPathName h outer = Some t \<and> GetPathName h this = Some (t @ ''/'' @ Name obj))"
  proof (cases "OuterPrivate obj")
    case None
    with obj show ?thesis
      by (simp add: GetFullName.simps[of h this] GetPathName.simps[of h this])
  next
    case (Some r)
    with assms obj have ch: "OuterChain h r qs" by simp
    from GetFullName_chain[OF ch] GetPathName_chain[OF ch] Some obj show ?thesis
      by (simp add: GetFullName.simps[of h this] GetPathName.simps[of h this])
  qed
  have seg: "segments CHR ''.'' (joined ''.'' (map (name_at h) (rev chain))) = map (name_at h) (rev chain)"
    if "list_all (\<lambda>q. CHR ''.'' \<notin> set (name_at h q)) chain"
    using that OuterChain_nonempty[OF assms]
    by (intro segments_joined) (auto simp: list_all_iff)
  show ?thesis
    using full path obj(2) rec seg by auto
qed

theorem GetFullName_GetPathName_chain_witness:
  "OuterChain heap3 3 [3, 2, 1] \<and>
   GetFullName heap3 3 = Some ''World.Level.Actor'' \<and>
   GetPathName heap3 3 = Some ''World/Level/Actor'' \<and>
   segments CHR ''.'' ''World.Level.Actor'' = [''World'', ''Level'', ''Actor'']"
proof -
  have ch: "OuterChain heap3 3 [3, 2, 1]"
    by (simp add: heap3_def Object_ctor_def ObjectBase_ctor_def AddFlags_def)
  have "list_all (\<lambda>q. CHR ''.'' \<notin> set (name_at heap3 q)) [3, 2, 1]"
    by (simp add: heap3_def name_at_def)
  with GetFullName_GetPathName_chain[OF ch] show ?thesis
    using ch by (simp add: heap3_def name_at_def)
qed
subsection \<open>The Identity Registry\<close>

lemma RegisterObject_live:
  assumes "GetFullName (heap w) p = Some name" and "heap w p = Some obj"
  shows "\<exists>w1. RegisterObject w (Some p) = Some w1 \<and> heap w1 = heap w \<and>
           handles w1 = handles w \<and>
           calls w1 = calls w @ [Call_RegisterObject p] \<and>
           Objects w1 = (Objects w)(name \<mapsto> p) \<and>
           ObjectsByClass w1 =
             (case GetClass obj of
                None \<Rightarrow> ObjectsByClass w
              | Some c \<Rightarrow> (ObjectsByClass w)(c \<mapsto> GetObjectsOfClass w (Some c) @ [p]))"
  using assms
  by (cases "GetClass obj")
     (simp_all add: RegisterObject_def logged_def GetObjectsOfClass_def Let_def)

text \<open>
  C9. Two entities whose full names are the same string are registered one after the
  other. Both registrations return without an error. The name map then has one entry for
  that name, the second entity (the first registration's entry is overwritten), and the
  second registration adds no key. Each entity that has a class is in the collection of
  its class; an entity with a null class is put in no collection (the code's guard).
\<close>

theorem RegisterObject_same_name:
  assumes "GetFullName (heap w) p1 = Some name" and "heap w p1 = Some obj1"
    and "GetFullName (heap w) p2 = Some name" and "heap w p2 = Some obj2"
  shows "\<exists>w1 w2. RegisterObject w (Some p1) = Some w1 \<and>
           RegisterObject w1 (Some p2) = Some w2 \<and>
           FindObject w1 name = Some p1 \<and>
           FindObject w2 name = Some p2 \<and>
           dom (Objects w2) = dom (Objects w1) \<and>
           dom (Objects w2) = insert name (dom (Objects w)) \<and>
           (\<forall>n. n \<noteq> name \<longrightarrow> FindObject w2 n = FindObject w n) \<and>
           (\<forall>c. GetClass obj1 = Some c \<longrightarrow> p1 \<in> set (GetObjectsOfClass w2 (Some c))) \<and>
           (\<forall>c. GetClass obj2 = Some c \<longrightarrow> p2 \<in> set (GetObjectsOfClass w2 (Some c))) \<and>
           (GetClass obj1 = None \<and> GetClass obj2 = None \<longrightarrow> ObjectsByClass w2 = ObjectsByClass w)"
proof -
  from RegisterObject_live[OF assms(1,2)] obtain w1 where
    w1: "RegisterObject w (Some p1) = Some w1" "heap w1 = heap w"
      "Objects w1 = (Objects w)(name \<mapsto> p1)"
      "ObjectsByClass w1 =
         (case GetClass obj1 of
            None \<Rightarrow> ObjectsByClass w
          | Some c \<Rightarrow> (ObjectsByClass w)(c \<mapsto> GetObjectsOfClass w (Some c) @ [p1]))"
    by blast
  from assms(3,4) w1(2) have "GetFullName (heap w1) p2 = Some name" "heap w1 p2 = Some obj2"
    by simp_all
  from RegisterObject_live[OF this] obtain w2 where
    w2: "RegisterObject w1 (Some p2) = Some w2"
      "Objects w2 = (Objects w1)(name \<mapsto> p2)"
      "ObjectsByClass w2 =
         (case GetClass obj2 of
            None \<Rightarrow> ObjectsByClass w1
          | Some c \<Rightarrow> (ObjectsByClass w1)(c \<mapsto> GetObjectsOfClass w1 (Some c) @ [p2]))"
    by blast
  have in1: "p1 \<in> set (GetObjectsOfClass w2 (Some c))" if "GetClass obj1 = Some c" for c
    using that w1(4) w2(3) by (cases "GetClass obj2") (auto simp: GetObjectsOfClass_def)
  have in2: "p2 \<in> set (GetObjectsOfClass w2 (Some c))" if "GetClass obj2 = Some c" for c
    using that w2(3) by (auto simp: GetObjectsOfClass_def)
  have none: "ObjectsByClass w2 = ObjectsByClass w" if "GetClass obj1 = None" "GetClass obj2 = None"
    using that w1(4) w2(3) by simp
  show ?thesis
    using w1(1,3) w2(1,2) in1 in2 none by (auto simp: FindObject_def)
qed

theorem RegisterObject_same_name_witness:
  "\<exists>w2. Option.bind (RegisterObject registry_world (Some 4)) (\<lambda>w1. RegisterObject w1 (Some 5)) = Some w2 \<and>
         FindObject w2 ''Hero'' = Some 5 \<and>
         4 \<in> set (GetObjectsOfClass w2 (Some 10)) \<and>
         5 \<in> set (GetObjectsOfClass w2 (Some 20))"
proof -
  have l1: "heap registry_world 4 = Some (Object_ctor\<lparr>Name := ''Hero'', ClassPrivate := Some 10\<rparr>)"
    and l2: "heap registry_world 5 = Some (Object_ctor\<lparr>Name := ''Hero'', ClassPrivate := Some 20\<rparr>)"
    by (simp_all add: registry_world_def world0_def)
  have n1: "GetFullName (heap registry_world) 4 = Some ''Hero''"
    by (subst GetFullName.simps) (simp add: l1 Object_ctor_def ObjectBase_ctor_def AddFlags_def)
  have n2: "GetFullName (heap registry_world) 5 = Some ''Hero''"
    by (subst GetFullName.simps) (simp add: l2 Object_ctor_def ObjectBase_ctor_def AddFlags_def)
  from RegisterObject_same_name[OF n1 l1 n2 l2] show ?thesis
    by (auto simp: GetClass_def)
qed
subsection \<open>Creation and destruction\<close>

lemma OuterChain_same_outers:
  "(\<And>q. map_option OuterPrivate (h' q) = map_option OuterPrivate (h q)) \<Longrightarrow>
   OuterChain h' p ps = OuterChain h p ps"
proof (induction ps arbitrary: p)
  case Nil
  then show ?case by simp
next
  case (Cons a ps)
  from Cons.prems[of p] show ?case
    by (cases "h p"; cases "h' p") (auto simp: Cons.IH[OF Cons.prems] split: option.splits)
qed

lemma names_same:
  "(\<And>q. map_option Name (h' q) = map_option Name (h q)) \<Longrightarrow> name_at h' = name_at h"
proof
  fix q
  assume a: "\<And>q. map_option Name (h' q) = map_option Name (h q)"
  from a[of q] show "name_at h' q = name_at h q"
    by (cases "h q"; cases "h' q") (auto simp: name_at_def)
qed

lemma GetFullName_AddFlags:
  assumes "OuterChain h p ps" and "h q = Some obj"
  shows "GetFullName (h(q \<mapsto> AddFlags obj f)) p = GetFullName h p"
proof -
  let ?h = "h(q \<mapsto> AddFlags obj f)"
  have o: "\<And>r. map_option OuterPrivate (?h r) = map_option OuterPrivate (h r)"
    and n: "\<And>r. map_option Name (?h r) = map_option Name (h r)"
    using assms(2) by (auto simp: AddFlags_def)
  have "OuterChain ?h p ps"
    using OuterChain_same_outers[of ?h h, OF o] assms(1) by simp
  from GetFullName_chain[OF this] GetFullName_chain[OF assms(1)] names_same[of ?h h, OF n]
  show ?thesis by simp
qed

lemma Release_live:
  assumes "heap w p = Some obj"
  shows "\<exists>w1. Release w p = Some w1 \<and>
           heap w1 = (if RefCount obj = 1 then (heap w)(p := None)
                      else (heap w)(p \<mapsto> obj\<lparr>RefCount := RefCount obj - 1\<rparr>)) \<and>
           Objects w1 = Objects w \<and> ObjectsByClass w1 = ObjectsByClass w \<and>
           handles w1 = handles w \<and>
           calls w1 = calls w @ [Call_Release p] @ (if RefCount obj = 1 then [Call_delete p] else [])"
  using assms by (simp add: Release_def delete_this_def logged_def Let_def)

lemma BeginDestroy_live:
  assumes "heap w p = Some obj"
  shows "\<exists>w1. BeginDestroy w p = Some w1 \<and>
           heap w1 = (heap w)(p \<mapsto> AddFlags obj BeginDestroyed) \<and>
           Objects w1 = Objects w \<and> ObjectsByClass w1 = ObjectsByClass w \<and>
           handles w1 = handles w \<and> calls w1 = calls w @ [Call_BeginDestroy p]"
  using assms by (simp add: BeginDestroy_def logged_def)

lemma FinishDestroy_live:
  assumes "heap w p = Some obj"
  shows "\<exists>w1. FinishDestroy w p = Some w1 \<and>
           heap w1 = (heap w)(p \<mapsto> AddFlags obj FinishDestroyed) \<and>
           Objects w1 = Objects w \<and> ObjectsByClass w1 = ObjectsByClass w \<and>
           handles w1 = handles w \<and> calls w1 = calls w @ [Call_FinishDestroy p]"
  using assms by (simp add: FinishDestroy_def logged_def)

lemma PostInitProperties_live:
  assumes "heap w p = Some obj"
  shows "\<exists>w1. PostInitProperties w p = Some w1 \<and> heap w1 = heap w \<and>
           Objects w1 = Objects w \<and> ObjectsByClass w1 = ObjectsByClass w \<and>
           handles w1 = handles w \<and> calls w1 = calls w @ [Call_PostInitProperties p]"
  using assms by (simp add: PostInitProperties_def logged_def)

lemma UnregisterObject_live:
  assumes "GetFullName (heap w) p = Some name" and "heap w p = Some obj"
  shows "\<exists>w1. UnregisterObject w (Some p) = Some w1 \<and> heap w1 = heap w \<and>
           handles w1 = handles w \<and>
           calls w1 = calls w @ [Call_UnregisterObject p] \<and>
           Objects w1 = (Objects w)(name := None) \<and>
           ObjectsByClass w1 =
             (case GetClass obj of
                None \<Rightarrow> ObjectsByClass w
              | Some c \<Rightarrow> (ObjectsByClass w)(c \<mapsto> removeAll p (GetObjectsOfClass w (Some c))))"
  using assms
  by (cases "GetClass obj")
     (simp_all add: UnregisterObject_def logged_def GetObjectsOfClass_def Let_def)

lemma HasFlags_bit: "HasFlags obj (push_bit n 1) = bit (ObjectFlagsPrivate obj) n"
  unfolding HasFlags_def ObjectFlags_None_def
  by (simp only: bit_iff_and_push_bit_not_eq_0)

lemma flags_AddFlags:
  "ObjectFlagsPrivate (AddFlags obj f\<lparr>RefCount := c\<rparr>) = ObjectFlagsPrivate obj OR f"
  "ObjectFlagsPrivate (AddFlags obj f) = ObjectFlagsPrivate obj OR f"
  by (simp_all add: AddFlags_def)

lemma HasFlags_destroyed:
  "HasFlags (AddFlags (AddFlags obj BeginDestroyed) FinishDestroyed\<lparr>RefCount := c\<rparr>) BeginDestroyed \<and>
   HasFlags (AddFlags (AddFlags obj BeginDestroyed) FinishDestroyed\<lparr>RefCount := c\<rparr>) FinishDestroyed"
  unfolding BeginDestroyed_def FinishDestroyed_def HasFlags_bit flags_AddFlags
  by (simp add: bit_simps)

lemma DestroyObject_effect:
  assumes "OuterChain (heap w) p chain" and "heap w p = Some obj"
    and "name = joined ''.'' (map (name_at (heap w)) (rev chain))"
  shows "DestroyObject w None = Some w \<and>
         (\<exists>w'. DestroyObject w (Some p) = Some w' \<and>
            calls w' = calls w @ [Call_BeginDestroy p, Call_UnregisterObject p,
                                  Call_FinishDestroy p, Call_Release p]
                         @ (if RefCount obj = 1 then [Call_delete p] else []) \<and>
            FindObject w' name = None \<and>
            p \<notin> set (GetObjectsOfClass w' (GetClass obj)) \<and>
            heap w' p =
              (if RefCount obj = 1 then None
               else Some (AddFlags (AddFlags obj BeginDestroyed) FinishDestroyed
                            \<lparr>RefCount := RefCount obj - 1\<rparr>)) \<and>
            (\<forall>obj'. heap w' p = Some obj' \<longrightarrow>
                HasFlags obj' BeginDestroyed \<and> HasFlags obj' FinishDestroyed))"
proof -
  let ?o1 = "AddFlags obj BeginDestroyed"
  let ?o2 = "AddFlags ?o1 FinishDestroyed"
  from BeginDestroy_live[OF assms(2)] obtain w1 where
    w1: "BeginDestroy w p = Some w1" "heap w1 = (heap w)(p \<mapsto> ?o1)"
      "Objects w1 = Objects w" "ObjectsByClass w1 = ObjectsByClass w"
      "calls w1 = calls w @ [Call_BeginDestroy p]"
    by blast
  have n1: "GetFullName (heap w1) p = Some name"
    using GetFullName_AddFlags[OF assms(1,2)] GetFullName_chain[OF assms(1)] assms(3) w1(2)
    by simp
  have l1: "heap w1 p = Some ?o1"
    using w1(2) by simp
  from UnregisterObject_live[OF n1 l1] obtain w2 where
    w2: "UnregisterObject w1 (Some p) = Some w2" "heap w2 = heap w1"
      "calls w2 = calls w1 @ [Call_UnregisterObject p]"
      "Objects w2 = (Objects w1)(name := None)"
      "ObjectsByClass w2 =
         (case GetClass ?o1 of
            None \<Rightarrow> ObjectsByClass w1
          | Some c \<Rightarrow> (ObjectsByClass w1)(c \<mapsto> removeAll p (GetObjectsOfClass w1 (Some c))))"
    by blast
  have l2: "heap w2 p = Some ?o1"
    using w2(2) l1 by simp
  from FinishDestroy_live[OF l2] obtain w3 where
    w3: "FinishDestroy w2 p = Some w3" "heap w3 = (heap w2)(p \<mapsto> ?o2)"
      "Objects w3 = Objects w2" "ObjectsByClass w3 = ObjectsByClass w2"
      "calls w3 = calls w2 @ [Call_FinishDestroy p]"
    by blast
  have l3: "heap w3 p = Some ?o2"
    using w3(2) by simp
  have rc: "RefCount ?o2 = RefCount obj"
    by (simp add: AddFlags_def)
  from Release_live[OF l3] obtain w' where
    w': "Release w3 p = Some w'"
      "heap w' = (if RefCount ?o2 = 1 then (heap w3)(p := None)
                  else (heap w3)(p \<mapsto> ?o2\<lparr>RefCount := RefCount ?o2 - 1\<rparr>))"
      "Objects w' = Objects w3" "ObjectsByClass w' = ObjectsByClass w3"
      "calls w' = calls w3 @ [Call_Release p] @ (if RefCount ?o2 = 1 then [Call_delete p] else [])"
    by blast
  have d: "DestroyObject w (Some p) = Some w'"
    by (simp add: DestroyObject_def w1(1) w2(1) w3(1) w'(1))
  have cs: "calls w' = calls w @ [Call_BeginDestroy p, Call_UnregisterObject p,
                                  Call_FinishDestroy p, Call_Release p]
                         @ (if RefCount obj = 1 then [Call_delete p] else [])"
    by (simp add: w'(5) w3(5) w2(3) w1(5) rc)
  have fo: "FindObject w' name = None"
    by (simp add: FindObject_def w'(3) w3(3) w2(4))
  have cl: "GetClass ?o1 = GetClass obj"
    by (simp add: GetClass_def AddFlags_def)
  have nin: "p \<notin> set (GetObjectsOfClass w' (GetClass obj))"
    by (cases "GetClass obj") (simp_all add: GetObjectsOfClass_def w'(4) w3(4) w2(5) cl)
  have hp: "heap w' p =
              (if RefCount obj = 1 then None
               else Some (?o2\<lparr>RefCount := RefCount obj - 1\<rparr>))"
    by (simp add: w'(2) rc)
  have "DestroyObject w None = Some w"
    by (simp add: DestroyObject_def)
  with d cs fo nin hp show ?thesis
    using HasFlags_destroyed[where obj = obj] by (auto split: if_splits)
qed

text \<open>
  C3, as the code has it. \<open>DestroyObject\<close> on a live entity with a finite Outer chain
  returns, and its calls are, in this order: \<open>BeginDestroy\<close> (which sets the
  \<open>BeginDestroyed\<close> flag), the unregistration from the Identity Registry,
  \<open>FinishDestroy\<close> (which sets the \<open>FinishDestroyed\<close> flag), and the final \<open>Release\<close>,
  which deletes the entity when the counter was 1. Afterwards the full name is in no
  entry of the name map and the entity is in no collection of its class; an entity that
  outlives the call has both flags set and its counter one lower. \<open>DestroyObject\<close> on a
  null reference changes nothing.
\<close>

theorem DestroyObject_order:
  assumes "OuterChain (heap w) p chain" and "heap w p = Some obj"
    and "name = joined ''.'' (map (name_at (heap w)) (rev chain))"
  shows "DestroyObject w None = Some w \<and>
         (\<exists>w'. DestroyObject w (Some p) = Some w' \<and>
            calls w' = calls w @ [Call_BeginDestroy p, Call_UnregisterObject p,
                                  Call_FinishDestroy p, Call_Release p]
                         @ (if RefCount obj = 1 then [Call_delete p] else []) \<and>
            FindObject w' name = None \<and>
            p \<notin> set (GetObjectsOfClass w' (GetClass obj)) \<and>
            heap w' p =
              (if RefCount obj = 1 then None
               else Some (AddFlags (AddFlags obj BeginDestroyed) FinishDestroyed
                            \<lparr>RefCount := RefCount obj - 1\<rparr>)) \<and>
            (\<forall>obj'. heap w' p = Some obj' \<longrightarrow>
                HasFlags obj' BeginDestroyed \<and> HasFlags obj' FinishDestroyed))"
  using DestroyObject_effect[OF assms] .

theorem DestroyObject_order_witness:
  "OuterChain (heap hero_world) 4 [4] \<and>
   map_option calls (DestroyObject hero_world (Some 4)) =
     Some [Call_BeginDestroy 4, Call_UnregisterObject 4, Call_FinishDestroy 4,
           Call_Release 4, Call_delete 4] \<and>
   map_option (\<lambda>w. FindObject w ''Hero'') (DestroyObject hero_world (Some 4)) = Some None \<and>
   map_option (\<lambda>w. heap w 4) (DestroyObject hero_world (Some 4)) = Some None \<and>
   DestroyObject hero_world None = Some hero_world"
proof -
  have ch: "OuterChain (heap hero_world) 4 [4]"
    by (simp add: hero_world_def world0_def Object_ctor_def ObjectBase_ctor_def AddFlags_def)
  have l: "heap hero_world 4 = Some (Object_ctor\<lparr>Name := ''Hero'', ClassPrivate := Some 10\<rparr>)"
    by (simp add: hero_world_def world0_def)
  have n: "''Hero'' = joined ''.'' (map (name_at (heap hero_world)) (rev [4]))"
    by (simp add: name_at_def l)
  have rc: "RefCount (Object_ctor\<lparr>Name := ''Hero'', ClassPrivate := Some 10\<rparr>) = 1"
    by (simp add: Object_ctor_def ObjectBase_ctor_def AddFlags_def)
  have c0: "calls hero_world = []"
    by (simp add: hero_world_def world0_def)
  from DestroyObject_order[OF ch l n] show ?thesis
    using ch by (auto simp: rc c0)
qed

text \<open>
  C3 as stated fails. On a registered entity whose counter is 1, the unregistration is
  the second call, before \<open>FinishDestroy\<close>: the log is not in the order the claim gives.
\<close>

theorem DestroyObject_order_counterexample:
  "map_option calls (DestroyObject hero_world (Some 4)) =
     Some [Call_BeginDestroy 4, Call_UnregisterObject 4, Call_FinishDestroy 4,
           Call_Release 4, Call_delete 4] \<and>
   map_option calls (DestroyObject hero_world (Some 4)) \<noteq>
     Some [Call_BeginDestroy 4, Call_FinishDestroy 4, Call_UnregisterObject 4,
           Call_Release 4, Call_delete 4] \<and>
   map_option (happens_before (Call_FinishDestroy 4) (Call_UnregisterObject 4) \<circ> calls)
     (DestroyObject hero_world (Some 4)) = Some False"
proof -
  have ch: "OuterChain (heap hero_world) 4 [4]"
    by (simp add: hero_world_def world0_def Object_ctor_def ObjectBase_ctor_def AddFlags_def)
  have l: "heap hero_world 4 = Some (Object_ctor\<lparr>Name := ''Hero'', ClassPrivate := Some 10\<rparr>)"
    by (simp add: hero_world_def world0_def)
  have rc: "RefCount (Object_ctor\<lparr>Name := ''Hero'', ClassPrivate := Some 10\<rparr>) = 1"
    by (simp add: Object_ctor_def ObjectBase_ctor_def AddFlags_def)
  have c0: "calls hero_world = []"
    by (simp add: hero_world_def world0_def)
  from DestroyObject_effect[OF ch l refl] show ?thesis
    by (auto simp: rc c0)
qed

text \<open>
  C4. \<open>Object::CreateObject\<close> with a null class returns a null result and leaves the
  whole state as it was: no entity, no registration, no call, and no error. The same holds
  when the class's factory is the base \<open>Class::CreateObject\<close>, which returns null. When the
  factory produces an entity (live, with a finite Outer chain), \<open>CreateObject\<close> returns
  that entity; after the factory its only calls are the registration and then
  \<open>PostInitProperties\<close>, in this order, and the entity is then found in the Identity
  Registry under its full name and is in the collection of its class.
\<close>

theorem CreateObject_null_and_registered:
  assumes "vtable c w outer name = Some (Some p, w1)"
    and "OuterChain (heap w1) p chain"
    and "heap w1 p = Some obj"
  shows "CreateObject vtable w None outer name = Some (None, w) \<and>
         CreateObject (\<lambda>c. Class_CreateObject) w (Some c) outer name = Some (None, w) \<and>
         (\<exists>w3. CreateObject vtable w (Some c) outer name = Some (Some p, w3) \<and>
            calls w3 = calls w1 @ [Call_RegisterObject p, Call_PostInitProperties p] \<and>
            FindObject w3 (joined ''.'' (map (name_at (heap w1)) (rev chain))) = Some p \<and>
            (\<forall>k. GetClass obj = Some k \<longrightarrow> p \<in> set (GetObjectsOfClass w3 (Some k))) \<and>
            heap w3 = heap w1)"
proof -
  let ?name = "joined ''.'' (map (name_at (heap w1)) (rev chain))"
  from RegisterObject_live[OF GetFullName_chain[OF assms(2)] assms(3)] obtain w2 where
    w2: "RegisterObject w1 (Some p) = Some w2" "heap w2 = heap w1"
      "calls w2 = calls w1 @ [Call_RegisterObject p]"
      "Objects w2 = (Objects w1)(?name \<mapsto> p)"
      "ObjectsByClass w2 =
         (case GetClass obj of
            None \<Rightarrow> ObjectsByClass w1
          | Some k \<Rightarrow> (ObjectsByClass w1)(k \<mapsto> GetObjectsOfClass w1 (Some k) @ [p]))"
    by blast
  have l2: "heap w2 p = Some obj"
    using w2(2) assms(3) by simp
  from PostInitProperties_live[OF l2] obtain w3 where
    w3: "PostInitProperties w2 p = Some w3" "heap w3 = heap w2"
      "Objects w3 = Objects w2" "ObjectsByClass w3 = ObjectsByClass w2"
      "calls w3 = calls w2 @ [Call_PostInitProperties p]"
    by blast
  have c: "CreateObject vtable w (Some c) outer name = Some (Some p, w3)"
    by (simp add: CreateObject_def assms(1) w2(1) w3(1))
  have cl: "p \<in> set (GetObjectsOfClass w3 (Some k))" if "GetClass obj = Some k" for k
    using that by (simp add: GetObjectsOfClass_def w3(4) w2(5))
  have "CreateObject vtable w None outer name = Some (None, w)"
    "CreateObject (\<lambda>c. Class_CreateObject) w (Some c) outer name = Some (None, w)"
    by (simp_all add: CreateObject_def Class_CreateObject_def)
  with c cl show ?thesis
    by (simp add: FindObject_def w3 w2)
qed

theorem CreateObject_null_and_registered_witness:
  "CreateObject (factory_at 4) world0 None None ''Hero'' = Some (None, world0) \<and>
   map_option fst (CreateObject (factory_at 4) world0 (Some 10) None ''Hero'') = Some (Some 4) \<and>
   map_option (calls \<circ> snd) (CreateObject (factory_at 4) world0 (Some 10) None ''Hero'') =
     Some [Call_RegisterObject 4, Call_PostInitProperties 4] \<and>
   map_option (\<lambda>r. FindObject (snd r) ''Hero'') (CreateObject (factory_at 4) world0 (Some 10) None ''Hero'')
     = Some (Some 4)"
proof -
  let ?obj = "Object_ctor\<lparr>Name := ''Hero'', ClassPrivate := Some 10, OuterPrivate := None\<rparr>"
  let ?w1 = "world0\<lparr>heap := (heap world0)(4 \<mapsto> ?obj)\<rparr>"
  have f: "factory_at 4 10 world0 None ''Hero'' = Some (Some 4, ?w1)"
    by (simp add: factory_at_def)
  have l: "heap ?w1 4 = Some ?obj"
    by simp
  have ch: "OuterChain (heap ?w1) 4 [4]"
    by simp
  have c0: "calls ?w1 = []"
    by (simp add: world0_def)
  from CreateObject_null_and_registered[of "factory_at 4" 10 world0 None "''Hero''", OF f ch l]
  show ?thesis
    by (auto simp: name_at_def c0)
qed
subsection \<open>Owning References\<close>






lemma fun_upd_same_live: "h p = Some obj \<Longrightarrow> h(p \<mapsto> obj) = h"
  by (simp add: fun_upd_idem)





subsection \<open>Array serialization\<close>

lemma resize_result:
  "resize avail dflt n xs =
     (if n \<le> length xs \<or> n \<le> avail then Inr (take n xs @ replicate (n - length xs) dflt)
      else Inl BadAlloc)"
  by (simp add: resize_def)

lemma length_resize: "resize avail dflt n xs = Inr ys \<Longrightarrow> length ys = n"
  by (auto simp: resize_def split: if_splits)

lemma resize_zero: "resize avail dflt 0 xs = Inr []"
  by (simp add: resize_def)

lemma resize_error: "resize avail dflt n xs = Inl e \<Longrightarrow> e = BadAlloc"
  by (auto simp: resize_def split: if_splits)

lemma serialize_each_length:
  "serialize_each shl_T s xs = Inr (ys, s') \<Longrightarrow> length ys = length xs"
  by (induction xs arbitrary: s ys) (auto split: sum.splits prod.splits)

lemma serialize_each_snoc:
  "serialize_each shl_T s (xs @ [x]) =
     (case serialize_each shl_T s xs of
        Inl e \<Rightarrow> Inl e
      | Inr (ys, s1) \<Rightarrow>
          (case shl_T s1 x of
             Inl e \<Rightarrow> Inl e
           | Inr (y, s2) \<Rightarrow> Inr (ys @ [y], s2)))"
  by (induction xs arbitrary: s) (auto split: sum.splits prod.splits)

lemma tape_save_each:
  "\<not> IsLoading ar \<Longrightarrow>
   serialize_each tape_T ar xs = Inr (xs, ar\<lparr>written := written ar @ map Elem xs\<rparr>)"
proof (induction xs arbitrary: ar)
  case Nil
  show ?case by simp
next
  case (Cons x xs)
  have "\<not> IsLoading (ar\<lparr>written := written ar @ [Elem x]\<rparr>)"
    using Cons.prems by (simp add: IsLoading_def)
  from Cons.IH[OF this] Cons.prems show ?case
    by (simp add: tape_T_def)
qed

lemma tape_load_each:
  "IsLoading ar \<Longrightarrow> tape ar = map Elem xs @ rest \<Longrightarrow> length old = length xs \<Longrightarrow>
   serialize_each tape_T ar old = Inr (xs, ar\<lparr>tape := rest\<rparr>)"
proof (induction xs arbitrary: ar old)
  case Nil
  then show ?case by simp
next
  case (Cons x xs)
  from Cons.prems(3) obtain o1 old' where old: "old = o1 # old'" "length old' = length xs"
    by (cases old) auto
  have l: "IsLoading (ar\<lparr>tape := map Elem xs @ rest\<rparr>)"
    using Cons.prems(1) by (simp add: IsLoading_def)
  from Cons.IH[OF l _ old(2)] Cons.prems(1,2) old(1) show ?case
    by (simp add: tape_T_def)
qed

lemma tape_save_array:
  "SerializeArray avail tape_uint32 tape_T dflt (TapeArchive_ctor Saving []) array =
     Inr (array, \<lparr>Flags = Saving, tape = [],
                  written = U32 (word_of_nat (length array)) # map Elem array\<rparr>)"
proof -
  have s: "\<not> IsLoading (TapeArchive_ctor Saving cells)" for cells :: "'a cell list"
    by (simp add: IsLoading_bit TapeArchive_ctor_def Saving_def bit_simps)
  have s': "\<not> IsLoading (TapeArchive_ctor Saving cells\<lparr>written := ws\<rparr>)" for cells ws :: "'a cell list"
    using s[of cells] by (simp add: IsLoading_def)
  show ?thesis
    by (simp add: SerializeArray_def tape_uint32_def s s' tape_save_each)
       (simp add: TapeArchive_ctor_def)
qed

lemma tape_load_array:
  assumes "length array < 2 ^ 32" and "length array \<le> length old \<or> length array \<le> avail"
  shows "SerializeArray avail tape_uint32 tape_T dflt
           (TapeArchive_ctor Loading (U32 (word_of_nat (length array)) # map Elem array)) old =
         Inr (array, \<lparr>Flags = Loading, tape = [], written = []\<rparr>)"
proof -
  let ?a = "\<lparr>Flags = Loading, tape = U32 (word_of_nat (length array)) # map Elem array, written = []\<rparr>"
  let ?b = "\<lparr>Flags = Loading, tape = map Elem array, written = []\<rparr>"
  let ?r = "take (length array) old @ replicate (length array - length old) dflt"
  have l: "IsLoading ?a" "IsLoading ?b"
    by (simp_all add: IsLoading_bit Loading_def bit_simps)
  have u: "unat (word_of_nat (length array) :: 32 word) = length array"
    using assms(1) by (simp add: unat_of_nat take_bit_nat_eq_self)
  have p: "tape_uint32 ?a v = Inr (word_of_nat (length array), ?b)" for v
    using l(1) by (simp add: tape_uint32_def)
  have r: "resize avail dflt (length array) old = Inr ?r"
    using assms(2) by (simp add: resize_result)
  have e: "serialize_each tape_T ?b ?r = Inr (array, ?b\<lparr>tape := []\<rparr>)"
    by (rule tape_load_each[OF l(2)]) simp_all
  show ?thesis
    unfolding TapeArchive_ctor_def SerializeArray_def Let_def p
    using l(2) e by (simp add: u r)
qed

text \<open>
  C6. For every backend: \<open>SerializeArray\<close> first serializes the length prefix, the size of
  the vector as an unsigned 32-bit count; a failure of that operation ends the call. If
  the archive is Loading, the vector is resized to the count that came back (a resize
  that the allocator refuses ends the call) and then its elements are serialized one by
  one, in order, so that the result has exactly that many elements; otherwise the
  elements of the vector as it is are serialized in order after the prefix. Serializing
  in order means: the last element is serialized after all the others, on the archive
  they left. An empty vector that is saved, and any vector loaded with a zero count, ends
  after the prefix with no element operation. On the tape backend: saving writes the
  count and then the elements in order, and loading that tape into any vector that can be
  resized to the count gives the elements back; the empty vector is the count 0 alone.
\<close>

theorem SerializeArray_prefix_then_elements:
  assumes "shl_size ar (word_of_nat (length array)) = Inr (n, ar')"
  shows "SerializeArray avail shl_size shl_T dflt ar array =
           (if IsLoading ar' then
              (case resize avail dflt (unat n) array of
                 Inl e \<Rightarrow> Inl e
               | Inr resized \<Rightarrow> serialize_each shl_T ar' resized)
            else serialize_each shl_T ar' array) \<and>
         (case resize avail dflt (unat n) array of
            Inl e \<Rightarrow> e = BadAlloc
          | Inr resized \<Rightarrow> length resized = unat n) \<and>
         (case SerializeArray avail shl_size shl_T dflt ar array of
            Inl e \<Rightarrow> True
          | Inr (ys, arz) \<Rightarrow> length ys = (if IsLoading ar' then unat n else length array)) \<and>
         (if array = [] \<and> \<not> IsLoading ar' \<or> IsLoading ar' \<and> n = 0
          then SerializeArray avail shl_size shl_T dflt ar array = Inr ([], ar') else True) \<and>
         (case shl_size arf (word_of_nat (length arrayf)) of
            Inl e \<Rightarrow> SerializeArray avail shl_size shl_T dflt arf arrayf = Inl e
          | Inr r \<Rightarrow> True) \<and>
         serialize_each shl_T ar' (xs @ [x]) =
           (case serialize_each shl_T ar' xs of
              Inl e \<Rightarrow> Inl e
            | Inr (ys, sy) \<Rightarrow>
                (case shl_T sy x of
                   Inl e \<Rightarrow> Inl e
                 | Inr (y, sz) \<Rightarrow> Inr (ys @ [y], sz))) \<and>
         SerializeArray avail tape_uint32 tape_T d (TapeArchive_ctor Saving []) items =
           Inr (items, \<lparr>Flags = Saving, tape = [],
                        written = U32 (word_of_nat (length items)) # map Elem items\<rparr>) \<and>
         (if length items < 2 ^ 32 \<and> (length items \<le> length old \<or> length items \<le> avail)
          then SerializeArray avail tape_uint32 tape_T d
                 (TapeArchive_ctor Loading (U32 (word_of_nat (length items)) # map Elem items)) old =
               Inr (items, \<lparr>Flags = Loading, tape = [], written = []\<rparr>)
          else True)"
proof -
  have eq: "SerializeArray avail shl_size shl_T dflt ar array =
           (if IsLoading ar' then
              (case resize avail dflt (unat n) array of
                 Inl e \<Rightarrow> Inl e
               | Inr resized \<Rightarrow> serialize_each shl_T ar' resized)
            else serialize_each shl_T ar' array)"
    using assms by (simp add: SerializeArray_def)
  have rs: "case resize avail dflt (unat n) array of
            Inl e \<Rightarrow> e = BadAlloc
          | Inr resized \<Rightarrow> length resized = unat n"
    by (auto split: sum.splits dest: resize_error length_resize)
  have len: "case SerializeArray avail shl_size shl_T dflt ar array of
            Inl e \<Rightarrow> True
          | Inr (ys, arz) \<Rightarrow> length ys = (if IsLoading ar' then unat n else length array)"
    unfolding eq
    by (auto split: sum.splits dest!: serialize_each_length length_resize)
  have empty: "SerializeArray avail shl_size shl_T dflt ar array = Inr ([], ar')"
    if "array = [] \<and> \<not> IsLoading ar' \<or> IsLoading ar' \<and> n = 0"
    unfolding eq using that by (auto simp: resize_zero)
  have fail: "case shl_size arf (word_of_nat (length arrayf)) of
            Inl e \<Rightarrow> SerializeArray avail shl_size shl_T dflt arf arrayf = Inl e
          | Inr r \<Rightarrow> True"
    by (simp add: SerializeArray_def split: sum.splits)
  have load: "SerializeArray avail tape_uint32 tape_T d
                 (TapeArchive_ctor Loading (U32 (word_of_nat (length items)) # map Elem items)) old =
               Inr (items, \<lparr>Flags = Loading, tape = [], written = []\<rparr>)"
    if "length items < 2 ^ 32 \<and> (length items \<le> length old \<or> length items \<le> avail)"
    using that by (intro tape_load_array) simp_all
  show ?thesis
    using eq rs len empty fail load
    by (simp add: serialize_each_snoc[of shl_T ar' xs x] tape_save_array)
qed

theorem SerializeArray_prefix_then_elements_witness:
  "SerializeArray 1000 tape_uint32 tape_T 0 (TapeArchive_ctor Saving []) [10, 20, 30 :: 32 word] =
     Inr ([10, 20, 30], \<lparr>Flags = Saving, tape = [], written = [U32 3, Elem 10, Elem 20, Elem 30]\<rparr>) \<and>
   SerializeArray 1000 tape_uint32 tape_T 0 (TapeArchive_ctor Loading [U32 3, Elem 10, Elem 20, Elem 30])
       [7 :: 32 word] =
     Inr ([10, 20, 30], \<lparr>Flags = Loading, tape = [], written = []\<rparr>) \<and>
   SerializeArray 1000 tape_uint32 tape_T 0 (TapeArchive_ctor Saving []) ([] :: 32 word list) =
     Inr ([], \<lparr>Flags = Saving, tape = [], written = [U32 0]\<rparr>) \<and>
   SerializeArray 1000 tape_uint32 tape_T 0 (TapeArchive_ctor Loading [U32 0]) [7 :: 32 word] =
     Inr ([], \<lparr>Flags = Loading, tape = [], written = []\<rparr>)"
proof -
  let ?s = "TapeArchive_ctor Saving ([] :: 32 word cell list)"
  have s: "\<not> IsLoading ?s"
    by (simp add: IsLoading_bit TapeArchive_ctor_def Saving_def bit_simps)
  have h: "tape_uint32 ?s (word_of_nat (length ([] :: 32 word list))) = Inr (0, ?s\<lparr>written := [U32 0]\<rparr>)"
    using s by (simp add: tape_uint32_def TapeArchive_ctor_def)
  note t = SerializeArray_prefix_then_elements[where shl_size = tape_uint32 and ar = ?s
      and array = "[]" and n = 0 and ar' = "?s\<lparr>written := [U32 0]\<rparr>" and shl_T = tape_T
      and d = "0 :: 32 word" and dflt = 0 and arf = ?s and arrayf = "[]" and xs = "[]" and x = 0
      and old = "[7]" and avail = 1000]
  note t1 = t[where items = "[10, 20, 30]", OF h, THEN conjunct2, THEN conjunct2, THEN conjunct2,
      THEN conjunct2, THEN conjunct2, THEN conjunct2]
  note t2 = t[where items = "[]", OF h, THEN conjunct2, THEN conjunct2, THEN conjunct2,
      THEN conjunct2, THEN conjunct2, THEN conjunct2]
  note a = t1[THEN conjunct1] and b = t1[THEN conjunct2]
  note c = t2[THEN conjunct1] and d = t2[THEN conjunct2]
  from a b c d show ?thesis
    by simp
qed

lemma keep_each: "serialize_each keep_T ar xs = Inr (xs, ar)"
  by (induction xs) (simp_all add: keep_T_def)

text \<open>
  C7, as the code has it. When the archive is Loading, \<open>SerializeArray\<close> hands the length
  prefix it has read to the resize of the vector as it is: no bound is checked first,
  whatever the value (any count up to 4294967295). Where the vector can take the count
  (it is no larger than the current size, or the allocator supplies the storage), the
  vector is resized to exactly that many elements and the elements are serialized on it.
  Where the allocator refuses, the call ends with the error of the allocation itself,
  raised inside the resize and not by a check of the prefix.
\<close>

theorem SerializeArray_loading_resize:
  assumes "shl_size ar (word_of_nat (length array)) = Inr (n, ar')" and "IsLoading ar'"
  shows "SerializeArray avail shl_size shl_T dflt ar array =
           (case resize avail dflt (unat n) array of
              Inl e \<Rightarrow> Inl e
            | Inr resized \<Rightarrow> serialize_each shl_T ar' resized) \<and>
         (if unat n \<le> length array \<or> unat n \<le> avail
          then resize avail dflt (unat n) array =
                 Inr (take (unat n) array @ replicate (unat n - length array) dflt) \<and>
               length (take (unat n) array @ replicate (unat n - length array) dflt) = unat n \<and>
               SerializeArray avail shl_size shl_T dflt ar array =
                 serialize_each shl_T ar'
                   (take (unat n) array @ replicate (unat n - length array) dflt)
          else resize avail dflt (unat n) array = Inl BadAlloc \<and>
               SerializeArray avail shl_size shl_T dflt ar array = Inl BadAlloc) \<and>
         (case SerializeArray avail shl_size shl_T dflt ar array of
            Inl e \<Rightarrow> True
          | Inr (ys, arz) \<Rightarrow> length ys = unat n)"
proof -
  have eq: "SerializeArray avail shl_size shl_T dflt ar array =
           (case resize avail dflt (unat n) array of
              Inl e \<Rightarrow> Inl e
            | Inr resized \<Rightarrow> serialize_each shl_T ar' resized)"
    using assms by (simp add: SerializeArray_def)
  have len: "case SerializeArray avail shl_size shl_T dflt ar array of
            Inl e \<Rightarrow> True
          | Inr (ys, arz) \<Rightarrow> length ys = unat n"
    unfolding eq
    by (auto split: sum.splits dest!: serialize_each_length length_resize)
  have l2: "length (take (unat n) array @ replicate (unat n - length array) dflt) = unat n"
    by simp
  show ?thesis
    using len l2 unfolding eq by (simp add: resize_result del: length_append length_take length_replicate)
qed

theorem SerializeArray_loading_resize_witness:
  "SerializeArray 1000 (fixed_uint32 5) keep_T (0 :: 8 word) (Archive_ctor Loading) [1, 2] =
     Inr ([1, 2, 0, 0, 0], Archive_ctor Loading) \<and>
   SerializeArray 4 (fixed_uint32 5) keep_T (0 :: 8 word) (Archive_ctor Loading) [1, 2] =
     Inl BadAlloc"
proof -
  have p: "fixed_uint32 5 (Archive_ctor Loading) (word_of_nat (length [1, 2 :: 8 word])) =
             Inr (5, Archive_ctor Loading)"
    by (simp add: fixed_uint32_def)
  have l: "IsLoading (Archive_ctor Loading)"
    by (simp add: IsLoading_bit Archive_ctor_def Loading_def bit_simps)
  note t = SerializeArray_loading_resize[where shl_size = "fixed_uint32 5"
      and ar = "Archive_ctor Loading" and array = "[1, 2]" and n = 5
      and ar' = "Archive_ctor Loading" and shl_T = keep_T and dflt = 0]
  note a = t[where avail = 1000, OF p l, THEN conjunct2, THEN conjunct1]
  note b = t[where avail = 4, OF p l, THEN conjunct2, THEN conjunct1]
  from a[unfolded keep_each] b show ?thesis
    by (simp add: numeral_3_eq_3)
qed

text \<open>
  C7 as stated fails. A Loading archive gives the length prefix 4294967295, the largest
  count there is, on a machine whose allocator supplies that many bytes.
  \<open>SerializeArray\<close> returns without an error, and the vector that was empty has
  4294967295 elements: the prefix was not bounded before it drove the resize, and no
  resource-exhaustion error was raised.
\<close>

theorem SerializeArray_loading_resize_counterexample:
  "SerializeArray 4294967295 (fixed_uint32 4294967295) keep_T (0 :: 8 word)
       (Archive_ctor Loading) [] =
     Inr (replicate 4294967295 0, Archive_ctor Loading) \<and>
   SerializeArray 4294967295 (fixed_uint32 4294967295) keep_T (0 :: 8 word)
       (Archive_ctor Loading) [] \<noteq>
     Inl ResourceExhausted \<and>
   length (replicate 4294967295 (0 :: 8 word)) = 4294967295"
proof -
  have l: "IsLoading (Archive_ctor Loading)"
    by (simp add: IsLoading_bit Archive_ctor_def Loading_def bit_simps)
  have u: "unat (4294967295 :: 32 word) = 4294967295"
    by simp
  have r: "resize 4294967295 (0 :: 8 word) 4294967295 [] = Inr (replicate 4294967295 0)"
    unfolding resize_result
    by (simp only: list.size take.simps minus_nat.diff_0 append_Nil order_refl simp_thms if_True)
  have "SerializeArray 4294967295 (fixed_uint32 4294967295) keep_T (0 :: 8 word)
          (Archive_ctor Loading) [] =
     Inr (replicate 4294967295 0, Archive_ctor Loading)"
    unfolding SerializeArray_def Let_def fixed_uint32_def
    by (simp only: sum.case prod.case l if_True u r keep_each)
  then show ?thesis
    by (simp only: length_replicate) simp
qed

subsection \<open>Round trip through a memory archive\<close>

lemma length_bytes_of: "length (bytes_of n w) = n"
  by (induction n arbitrary: w) simp_all

lemma word_of_bytes_of_take:
  "word_of_bytes (bytes_of n w) = (take_bit (8 * n) w :: 'a::len word)"
proof (induction n arbitrary: w)
  case 0
  show ?case by simp
next
  case (Suc n)
  have "(ucast (ucast w :: byte) :: 'a word) OR push_bit 8 (take_bit (8 * n) (drop_bit 8 w)) =
        take_bit (8 * Suc n) w"
    by (rule bit_word_eqI) (auto simp: bit_simps)
  with Suc show ?case by simp
qed

lemma word_of_bytes_of:
  "LENGTH('a) \<le> 8 * n \<Longrightarrow> word_of_bytes (bytes_of n w) = (w :: 'a::len word)"
  by (simp add: word_of_bytes_of_take take_bit_word_eq_self)

lemma char_of_byte_of_char: "char_of_byte (byte_of_char c) = c"
proof -
  have "of_char c < (256 :: nat)"
    by (cases c) simp
  then have "unat (word_of_nat (of_char c) :: byte) = of_char c"
    by (simp add: unat_of_nat take_bit_nat_eq_self)
  then show ?thesis
    by (simp add: char_of_byte_def byte_of_char_def)
qed

lemma write_bytes_end:
  "Position ar = length (Data ar) \<Longrightarrow>
   write_bytes ar bs = ar\<lparr>Data := Data ar @ bs, Position := length (Data ar) + length bs\<rparr>"
  by (simp add: write_bytes_def)

lemma read_bytes_at:
  assumes "Position ar \<le> length (Data ar)" and "drop (Position ar) (Data ar) = bs @ rest"
    and "n = length bs"
  shows "read_bytes ar n = Inr (bs, ar\<lparr>Position := Position ar + n\<rparr>)"
proof -
  have "length (drop (Position ar) (Data ar)) = length bs + length rest"
    using assms(2) by simp
  then have "Position ar + n \<le> length (Data ar)"
    using assms(1,3) by simp
  then show ?thesis
    using assms(2,3) by (simp add: read_bytes_def)
qed

lemma flags_kept:
  "IsLoading (ar\<lparr>Data := d, Position := p\<rparr>) = IsLoading ar"
  "IsSaving (ar\<lparr>Data := d, Position := p\<rparr>) = IsSaving ar"
  "IsLoading (ar\<lparr>Position := p\<rparr>) = IsLoading ar"
  "IsLoading (ar\<lparr>Data := d\<rparr>) = IsLoading ar"
  "IsSaving (ar\<lparr>Data := d\<rparr>) = IsSaving ar"
  by (simp_all add: IsLoading_def IsSaving_def)

lemma save_word:
  "\<not> IsLoading ar \<Longrightarrow> IsSaving ar \<Longrightarrow> Position ar = length (Data ar) \<Longrightarrow>
   shl_word n ar v =
     Inr (v, ar\<lparr>Data := Data ar @ bytes_of n v, Position := length (Data ar) + n\<rparr>)"
  by (simp add: shl_word_def write_bytes_end length_bytes_of)

lemma save_prim:
  assumes "\<not> IsLoading ar" and "IsSaving ar" and "Position ar = length (Data ar)"
  shows "shl_prim ar v =
           Inr (v, ar\<lparr>Data := Data ar @ wire v, Position := length (Data ar) + length (wire v)\<rparr>)"
proof (cases v)
  case (P_bool b)
  with assms show ?thesis
    by (simp add: shl_bool_def tagged_def write_bytes_end)
next
  case (P_string s)
  with assms show ?thesis
    by (simp add: shl_string_def tagged_def write_bytes_end length_bytes_of)
qed (use assms in \<open>simp_all add: save_word tagged_def length_bytes_of\<close>)

lemma save_each:
  "\<not> IsLoading ar \<Longrightarrow> IsSaving ar \<Longrightarrow> Position ar = length (Data ar) \<Longrightarrow>
   serialize_each shl_prim ar vs =
     Inr (vs, ar\<lparr>Data := Data ar @ concat (map wire vs),
                 Position := length (Data ar) + length (concat (map wire vs))\<rparr>)"
proof (induction vs arbitrary: ar)
  case Nil
  then show ?case by simp
next
  case (Cons v vs)
  let ?ar = "ar\<lparr>Data := Data ar @ wire v, Position := length (Data ar) + length (wire v)\<rparr>"
  have "\<not> IsLoading ?ar" "IsSaving ?ar" "Position ?ar = length (Data ?ar)"
    using Cons.prems by (simp_all add: flags_kept)
  from Cons.IH[OF this] save_prim[OF Cons.prems, of v] show ?case
    by (simp add: add.assoc)
qed

lemma load_word:
  assumes "IsLoading ar" and "Position ar \<le> length (Data ar)"
    and "drop (Position ar) (Data ar) = bytes_of n v @ rest" and "LENGTH('a) \<le> 8 * n"
  shows "shl_word n ar v0 = Inr (v :: 'a::len word, ar\<lparr>Position := Position ar + n\<rparr>)"
  using assms(1,4) read_bytes_at[OF assms(2,3), of n]
  by (simp add: shl_word_def length_bytes_of word_of_bytes_of)

lemma load_prim:
  assumes "IsLoading ar" and "Position ar \<le> length (Data ar)"
    and "drop (Position ar) (Data ar) = wire v @ rest" and "fits v"
  shows "shl_prim ar (fresh v) = Inr (v, ar\<lparr>Position := Position ar + length (wire v)\<rparr>)"
proof (cases v)
  case (P_bool b)
  with assms(3) have d: "drop (Position ar) (Data ar) = [if b then 1 else 0] @ rest"
    by simp
  from read_bytes_at[OF assms(2) d, of 1] assms(1) P_bool show ?thesis
    by (simp add: shl_bool_def tagged_def)
next
  case (P_string s)
  let ?n = "word_of_nat (length s) :: 32 word"
  have len: "unat ?n = length s"
    using assms(4) P_string by (simp add: unat_of_nat take_bit_nat_eq_self)
  from assms(3) P_string
  have d1: "drop (Position ar) (Data ar) = bytes_of 4 ?n @ (map byte_of_char s @ rest)"
    by simp
  note r1 = read_bytes_at[OF assms(2) d1, of 4, simplified length_bytes_of, OF refl]
  let ?ar = "ar\<lparr>Position := Position ar + 4\<rparr>"
  have "drop (Position ar + 4) (Data ar) = drop 4 (drop (Position ar) (Data ar))"
    by (simp add: add.commute)
  also have "\<dots> = map byte_of_char s @ rest"
    unfolding d1 by (simp add: length_bytes_of)
  finally have d2: "drop (Position ?ar) (Data ?ar) = map byte_of_char s @ rest"
    by simp
  have "length (drop (Position ar) (Data ar)) = 4 + length s + length rest"
    unfolding d1 by (simp add: length_bytes_of)
  then have le: "Position ?ar \<le> length (Data ?ar)"
    by simp
  note r2 = read_bytes_at[OF le d2, of "length s"]
  have w: "word_of_bytes (bytes_of 4 ?n) = ?n"
    by (simp add: word_of_bytes_of)
  have c: "map (char_of_byte \<circ> byte_of_char) s = s"
    by (simp add: char_of_byte_of_char comp_def)
  from r1 r2 assms(1) P_string show ?thesis
    by (simp add: shl_string_def tagged_def w len c length_bytes_of add.assoc)
qed (use assms in \<open>simp_all add: load_word tagged_def length_bytes_of\<close>)

lemma load_each:
  "IsLoading ar \<Longrightarrow> Position ar \<le> length (Data ar) \<Longrightarrow>
   drop (Position ar) (Data ar) = concat (map wire vs) @ rest \<Longrightarrow> list_all fits vs \<Longrightarrow>
   serialize_each shl_prim ar (map fresh vs) =
     Inr (vs, ar\<lparr>Position := Position ar + length (concat (map wire vs))\<rparr>)"
proof (induction vs arbitrary: ar)
  case Nil
  then show ?case by simp
next
  case (Cons v vs)
  let ?ar = "ar\<lparr>Position := Position ar + length (wire v)\<rparr>"
  from Cons.prems(3)
  have d: "drop (Position ar) (Data ar) = wire v @ (concat (map wire vs) @ rest)"
    by simp
  from Cons.prems(4) have f: "fits v" "list_all fits vs"
    by simp_all
  note s = load_prim[OF Cons.prems(1,2) d f(1)]
  have "length (drop (Position ar) (Data ar)) = length (wire v) + length (concat (map wire vs) @ rest)"
    unfolding d by simp
  then have le: "Position ?ar \<le> length (Data ?ar)"
    using Cons.prems(2) by simp
  have "drop (Position ar + length (wire v)) (Data ar) = drop (length (wire v)) (drop (Position ar) (Data ar))"
    by (simp add: add.commute)
  then have d': "drop (Position ?ar) (Data ?ar) = concat (map wire vs) @ rest"
    unfolding d by simp
  have l: "IsLoading ?ar"
    using Cons.prems(1) by (simp add: flags_kept)
  from Cons.IH[OF l le d' f(2)] s show ?case
    by (simp add: add.assoc)
qed

lemma MemoryArchive_direction:
  "\<not> IsLoading (MemoryArchive_ctor False)" "IsSaving (MemoryArchive_ctor False)"
  "IsLoading (MemoryArchive_ctor_data bytes True)"
  by (simp_all add: IsLoading_bit IsSaving_bit MemoryArchive_ctor_def MemoryArchive_ctor_data_def
        Loading_def Saving_def bit_simps)

text \<open>
  C5. A sequence of primitive values (booleans, integers of every width and signedness,
  float and double as their bit patterns, strings, the empty string among them) is saved
  in order to a new memory archive: the buffer then holds the bytes of the values one
  after the other. Loading these bytes, in the same order, into fresh variables of the
  same types through a new loading archive succeeds and gives every variable the value
  that was saved; the cursor ends at the end of the buffer. The memory archive is
  modelled from the specification, where a string carries a 32-bit count: the
  strings are those of fewer than 4294967296 characters.
\<close>

theorem MemoryArchive_round_trip:
  assumes "list_all fits vs"
  shows "save_all vs =
           Inr (vs, \<lparr>Flags = Saving, Data = concat (map wire vs),
                     Position = length (concat (map wire vs))\<rparr>) \<and>
         load_all (concat (map wire vs)) (map fresh vs) =
           Inr (vs, \<lparr>Flags = Loading, Data = concat (map wire vs),
                     Position = length (concat (map wire vs))\<rparr>) \<and>
         save_then_load vs =
           Inr (vs, \<lparr>Flags = Loading, Data = concat (map wire vs),
                     Position = length (concat (map wire vs))\<rparr>)"
proof -
  have s: "save_all vs =
           Inr (vs, \<lparr>Flags = Saving, Data = concat (map wire vs),
                     Position = length (concat (map wire vs))\<rparr>)"
    unfolding save_all_def
    by (subst save_each[OF MemoryArchive_direction(1,2)])
       (simp_all add: MemoryArchive_ctor_def)
  have l: "load_all (concat (map wire vs)) (map fresh vs) =
           Inr (vs, \<lparr>Flags = Loading, Data = concat (map wire vs),
                     Position = length (concat (map wire vs))\<rparr>)"
    unfolding load_all_def
    by (subst load_each[OF MemoryArchive_direction(3), where rest = "[]" and vs = vs])
       (simp_all add: MemoryArchive_ctor_data_def assms)
  show ?thesis
    using s l by (simp add: save_then_load_def)
qed


theorem MemoryArchive_round_trip_witness:
  "save_then_load [P_bool True, P_int8 (- 1), P_uint16 513, P_int32 (- 2), P_uint64 7,
                   P_float 1065353216, P_double 0, P_string ''Hi'', P_string []] =
     Inr ([P_bool True, P_int8 (- 1), P_uint16 513, P_int32 (- 2), P_uint64 7,
           P_float 1065353216, P_double 0, P_string ''Hi'', P_string []],
          \<lparr>Flags = Loading,
             Data = [1, 255, 1, 2, 254, 255, 255, 255, 7, 0, 0, 0, 0, 0, 0, 0, 0, 0, 128, 63,
                     0, 0, 0, 0, 0, 0, 0, 0, 2, 0, 0, 0, 72, 105, 0, 0, 0, 0],
             Position = 38\<rparr>)"
proof -
  let ?vs = "[P_bool True, P_int8 (- 1), P_uint16 513, P_int32 (- 2), P_uint64 7,
              P_float 1065353216, P_double 0, P_string ''Hi'', P_string []]"
  have f: "list_all fits ?vs"
    by simp
  have w: "concat (map wire ?vs) =
      [1, 255, 1, 2, 254, 255, 255, 255, 7, 0, 0, 0, 0, 0, 0, 0, 0, 0, 128, 63,
       0, 0, 0, 0, 0, 0, 0, 0, 2, 0, 0, 0, 72, 105, 0, 0, 0, 0]"
    by code_simp
  from MemoryArchive_round_trip[OF f] show ?thesis
    unfolding w by simp
qed

end
